theory Spec2Isabelle
  imports Main "HOL-Library.Sublist"
begin

section \<open>The Tile component\<close>

text \<open>
  The model follows \<^verbatim>\<open>homeassistant/components/tile/__init__.py\<close>.
  Python strings are character lists.  \<^verbatim>\<open>DOMAIN\<close> is imported from the
  component's \<^verbatim>\<open>const\<close> module; it is a parameter \<open>domain\<close> of the
  model (the comment in the source gives the old identifier as \<^verbatim>\<open>tile_{uuid}\<close>).
\<close>

subsection \<open>Python string operations\<close>

text \<open>\<^verbatim>\<open>s.startswith(p)\<close>\<close>

definition startswith :: "string \<Rightarrow> string \<Rightarrow> bool" where
  "startswith s p = prefix p s"

text \<open>
  \<^verbatim>\<open>s.split(sep)\<close> for a non-empty separator: the string is scanned from
  the left, every occurrence of \<open>sep\<close> found ends the current piece and the scan
  resumes behind it.  \<open>acc\<close> holds the current piece, reversed.  Python raises
  \<^verbatim>\<open>ValueError\<close> for an empty separator; the only separator used here is
  \<^verbatim>\<open>f"{DOMAIN}_"\<close>, which is never empty.
\<close>

function split_from :: "string \<Rightarrow> string \<Rightarrow> string \<Rightarrow> string list" where
  "split_from sep acc s =
     (if s = [] then [rev acc]
      else if sep \<noteq> [] \<and> prefix sep s then rev acc # split_from sep [] (drop (length sep) s)
      else split_from sep (hd s # acc) (tl s))"
  by pat_completeness auto
termination
  by (relation "measure (\<lambda>(sep, acc, s). length s)") auto

declare split_from.simps [simp del]

definition split :: "string \<Rightarrow> string \<Rightarrow> string list" where
  "split s sep = split_from sep [] s"

text \<open>\<^verbatim>\<open>sep.join(parts)\<close>\<close>

fun join :: "string \<Rightarrow> string list \<Rightarrow> string" where
  "join sep [] = []"
| "join sep [p] = p"
| "join sep (p # q # ps) = p @ sep @ join sep (q # ps)"

text \<open>Whether \<open>sep\<close> occurs in \<open>s\<close> (Python's \<^verbatim>\<open>sep in s\<close>).\<close>

fun occurs :: "string \<Rightarrow> string \<Rightarrow> bool" where
  "occurs sep [] = (sep = [])"
| "occurs sep (c # cs) = (prefix sep (c # cs) \<or> occurs sep cs)"

subsection \<open>Exceptions\<close>

text \<open>
  The exceptions the client library can raise: \<^verbatim>\<open>pytile.errors.TileError\<close>
  and its subclasses \<^verbatim>\<open>InvalidAuthError\<close> and \<^verbatim>\<open>SessionExpiredError\<close>
  (the constructor \<open>TileError\<close> stands for every other member of the family),
  and any exception outside the family.  Each carries its message.
\<close>

datatype lib_exn =
    InvalidAuthError string
  | SessionExpiredError string
  | TileError string
  | OtherException string

text \<open>What the component itself can raise, or let through.\<close>

datatype exn =
    Lib lib_exn
  | UpdateFailed string
  | ConfigEntryNotReady string
  | KeyError string

text \<open>The \<^verbatim>\<open>except\<close> clauses match by class.\<close>

fun is_InvalidAuthError :: "lib_exn \<Rightarrow> bool" where
  "is_InvalidAuthError (InvalidAuthError m) = True"
| "is_InvalidAuthError e = False"

fun is_SessionExpiredError :: "lib_exn \<Rightarrow> bool" where
  "is_SessionExpiredError (SessionExpiredError m) = True"
| "is_SessionExpiredError e = False"

fun is_TileError :: "lib_exn \<Rightarrow> bool" where
  "is_TileError (OtherException m) = False"
| "is_TileError e = True"

text \<open>\<^verbatim>\<open>str(err)\<close>\<close>

fun exn_str :: "lib_exn \<Rightarrow> string" where
  "exn_str (InvalidAuthError m) = m"
| "exn_str (SessionExpiredError m) = m"
| "exn_str (TileError m) = m"
| "exn_str (OtherException m) = m"

subsection \<open>Data\<close>

text \<open>
  A registry entry carries the three fields the component reads.  The registry's
  \<^verbatim>\<open>entities\<close> dictionary is keyed by entity id; its values are kept as a list
  in dictionary order.
\<close>

record entity =
  entity_id :: string
  config_entry_id :: string
  unique_id :: string

record config_entry =
  entry_id :: string
  conf_username :: string
  conf_password :: string

text \<open>A Tile as the client library returns it; its location state lives in the outside world.\<close>

record tile =
  tile_uuid :: string
  tile_name :: string

text \<open>The logged-in client is an opaque handle.\<close>

type_synonym client = nat

text \<open>
  A \<^verbatim>\<open>DataUpdateCoordinator\<close>: its name, its interval in seconds, the Tile bound
  into its update method by \<^verbatim>\<open>partial(async_update_tile, tile)\<close>, and the
  outcome of its last refresh.
\<close>

record coordinator =
  coord_name :: string
  update_interval :: nat
  update_tile :: tile
  last_update_success :: bool
  coord_data :: "string option"

text \<open>
  Coordinators are objects: the dictionary of an entry and the refresh coroutine of a
  coordinator both refer to the one object made by the constructor, and a refresh
  changes that object.  A reference is the position of the object among the
  coordinators created so far.
\<close>

type_synonym coordinator_ref = nat

text \<open>\<^verbatim>\<open>hass.data[DOMAIN]\<close>: the two per-entry namespaces.\<close>

record domain_data =
  data_coordinator :: "string \<rightharpoonup> (string \<rightharpoonup> coordinator_ref)"
  data_tile :: "string \<rightharpoonup> (string \<times> tile) list"

text \<open>
  The calls the component makes on its collaborators, in the order it makes them.
\<close>

datatype event =
    EvUpdateEntity string string
  | EvLogin string
  | EvGetTiles
  | EvCreateCoordinator string
  | EvRefreshStart string
  | EvTileUpdate string
  | EvClientInit
  | EvRefreshSettle string
  | EvSetupPlatforms "string list"
  | EvUnloadPlatforms "string list"

text \<open>
  The host: \<^verbatim>\<open>hass.data.get(DOMAIN)\<close>, the entity registry, the coordinator
  objects created so far, the state \<open>world\<close> of everything outside the component
  (the Tile service, the network, the platforms), and the log of calls made so far.
\<close>

record 'w hass =
  tile_data :: "domain_data option"
  registry :: "entity list"
  coordinators :: "coordinator list"
  world :: 'w
  trace :: "event list"

text \<open>
  The collaborators, as functions on the outside world: \<^verbatim>\<open>pytile.async_login\<close>,
  \<^verbatim>\<open>client.async_get_tiles\<close> (a dictionary from Tile UUID to Tile, in
  dictionary order), \<^verbatim>\<open>tile.async_update\<close>, \<^verbatim>\<open>client.async_init\<close> and
  \<^verbatim>\<open>hass.config_entries.async_unload_platforms\<close>.
\<close>

record 'w env =
  login :: "string \<Rightarrow> string \<Rightarrow> 'w \<Rightarrow> (lib_exn + client) \<times> 'w"
  get_tiles :: "client \<Rightarrow> 'w \<Rightarrow> (lib_exn + (string \<times> tile) list) \<times> 'w"
  tile_update :: "tile \<Rightarrow> 'w \<Rightarrow> (lib_exn + string option) \<times> 'w"
  client_init :: "client \<Rightarrow> 'w \<Rightarrow> (lib_exn + unit) \<times> 'w"
  unload_platforms :: "config_entry \<Rightarrow> string list \<Rightarrow> 'w \<Rightarrow> bool \<times> 'w"

definition PLATFORMS :: "string list" where
  "PLATFORMS = [''device_tracker'']"

definition DEFAULT_INIT_TASK_LIMIT :: nat where
  "DEFAULT_INIT_TASK_LIMIT = 2"

text \<open>\<^verbatim>\<open>timedelta(minutes=2)\<close>, in seconds.\<close>

definition DEFAULT_UPDATE_INTERVAL :: nat where
  "DEFAULT_UPDATE_INTERVAL = 2 * 60"

definition log_event :: "event \<Rightarrow> 'w hass \<Rightarrow> 'w hass" where
  "log_event ev h = h\<lparr>trace := trace h @ [ev]\<rparr>"

subsection \<open>Identity migration\<close>

text \<open>
  Modelled from the spec: \<^verbatim>\<open>EntityRegistry.async_update_entity\<close> lives in the
  host's \<^verbatim>\<open>helpers.entity_registry\<close>, which is not part of the component.  The
  spec's interface is ``update an entity's unique identifier'': the entry stored
  under the entity id gets the new unique id, every other entry stays.
\<close>

definition async_update_entity :: "string \<Rightarrow> string \<Rightarrow> entity list \<Rightarrow> entity list" where
  "async_update_entity eid new_uid reg =
     map (\<lambda>e. if entity_id e = eid then e\<lparr>unique_id := new_uid\<rparr> else e) reg"

text \<open>The filter of the list comprehension in \<^verbatim>\<open>async_setup_entry\<close>.\<close>

definition needs_migration :: "config_entry \<Rightarrow> entity \<Rightarrow> bool" where
  "needs_migration entry e \<longleftrightarrow>
     config_entry_id e = entry_id entry \<and> \<not> startswith (unique_id e) (conf_username entry)"

text \<open>
  \<^verbatim>\<open>f"{entry.data[CONF_USERNAME]}_".join(entity.unique_id.split(f"{DOMAIN}_"))\<close>
\<close>

definition new_unique_id :: "string \<Rightarrow> config_entry \<Rightarrow> entity \<Rightarrow> string" where
  "new_unique_id domain entry e =
     join (conf_username entry @ ''_'') (split (unique_id e) (domain @ ''_''))"

text \<open>
  The migration loop.  The list comprehension is evaluated first, on the registry
  as it is found; the loop body then updates the registry one entity at a time.
\<close>

fun migrate_loop :: "string \<Rightarrow> config_entry \<Rightarrow> entity list \<Rightarrow> 'w hass \<Rightarrow> 'w hass" where
  "migrate_loop domain entry [] h = h"
| "migrate_loop domain entry (e # es) h =
     migrate_loop domain entry es
       (log_event (EvUpdateEntity (entity_id e) (new_unique_id domain entry e))
          (h\<lparr>registry :=
               async_update_entity (entity_id e) (new_unique_id domain entry e) (registry h)\<rparr>))"

definition migrate_entities :: "string \<Rightarrow> config_entry \<Rightarrow> 'w hass \<Rightarrow> 'w hass" where
  "migrate_entities domain entry h =
     migrate_loop domain entry (filter (needs_migration entry) (registry h)) h"

subsection \<open>The update method of a coordinator\<close>

text \<open>
  \<^verbatim>\<open>async_update_tile(tile)\<close>, the closure defined inside
  \<^verbatim>\<open>async_setup_entry\<close> over \<open>client\<close>.  An exception raised inside the
  \<^verbatim>\<open>except SessionExpiredError\<close> handler is not seen by the
  \<^verbatim>\<open>except TileError\<close> clause that follows it; after a successful
  \<^verbatim>\<open>client.async_init()\<close> the function falls off its end and returns
  \<^verbatim>\<open>None\<close>.
\<close>

definition async_update_tile ::
  "'w env \<Rightarrow> client \<Rightarrow> tile \<Rightarrow> 'w hass \<Rightarrow> (exn + string option) \<times> 'w hass" where
  "async_update_tile env cl t h =
     (let (r, w1) = tile_update env t (world h);
          h1 = log_event (EvTileUpdate (tile_uuid t)) (h\<lparr>world := w1\<rparr>)
      in case r of
           Inr v \<Rightarrow> (Inr v, h1)
         | Inl err \<Rightarrow>
             if is_SessionExpiredError err then
               (let (r2, w2) = client_init env cl (world h1);
                    h2 = log_event EvClientInit (h1\<lparr>world := w2\<rparr>)
                in case r2 of
                     Inr u \<Rightarrow> (Inr None, h2)
                   | Inl err2 \<Rightarrow> (Inl (Lib err2), h2))
             else if is_TileError err then
               (Inl (UpdateFailed (''Error while retrieving data: '' @ exn_str err)), h1)
             else (Inl (Lib err), h1))"

subsection \<open>Coordinators and the initial refresh\<close>

text \<open>
  \<^verbatim>\<open>hass.data[DOMAIN][DATA_COORDINATOR][entry.entry_id][tile_uuid] = coordinator\<close>.
  Both outer keys exist wherever the component makes this assignment (it stores
  them at the start of \<^verbatim>\<open>async_setup_entry\<close>).
\<close>

definition set_coordinator :: "config_entry \<Rightarrow> string \<Rightarrow> coordinator_ref \<Rightarrow> 'w hass \<Rightarrow> 'w hass" where
  "set_coordinator entry uuid ref h =
     (case tile_data h of
        None \<Rightarrow> h
      | Some d \<Rightarrow>
          (case data_coordinator d (entry_id entry) of
             None \<Rightarrow> h
           | Some cm \<Rightarrow>
               h\<lparr>tile_data :=
                    Some (d\<lparr>data_coordinator :=
                              (data_coordinator d)(entry_id entry \<mapsto> cm(uuid \<mapsto> ref))\<rparr>)\<rparr>))"

text \<open>
  Modelled from the spec: the constructor of \<^verbatim>\<open>DataUpdateCoordinator\<close>
  (the host's \<^verbatim>\<open>helpers.update_coordinator\<close>) ``construct with
  \{scheduler handle, logger, name, interval, update function\}''; a new coordinator
  has recorded no failure and holds no data.
\<close>

definition DataUpdateCoordinator :: "string \<Rightarrow> nat \<Rightarrow> tile \<Rightarrow> coordinator" where
  "DataUpdateCoordinator name interval t =
     \<lparr>coord_name = name, update_interval = interval, update_tile = t,
      last_update_success = True, coord_data = None\<rparr>"

text \<open>The new object joins the coordinators; the result is the reference to it.\<close>

definition new_coordinator :: "coordinator \<Rightarrow> 'w hass \<Rightarrow> coordinator_ref \<times> 'w hass" where
  "new_coordinator c h = (length (coordinators h), h\<lparr>coordinators := coordinators h @ [c]\<rparr>)"

text \<open>
  A refresh task is the coroutine \<^verbatim>\<open>coordinator.async_refresh()\<close>: it holds the
  reference to its coordinator.  The Tile UUID names the task in the log.
\<close>

type_synonym task = "string \<times> coordinator_ref"

text \<open>
  Modelled from the spec: \<^verbatim>\<open>DataUpdateCoordinator.async_refresh\<close> is
  ``\<^verbatim>\<open>refresh()\<close>: suspend until one update cycle completes, recording
  success/failure''.  One cycle calls the coordinator's update method; a returned value
  is stored in the coordinator as a success, any exception is recorded in it as a
  failure and goes no further.  Nothing but the coordinator object changes: its name,
  interval and update method stay, and so does every dictionary.  The cycle's effects
  on the world take place when the task settles.  (A task always refers to a
  coordinator that exists; for any other reference there is nothing to refresh.)
\<close>

definition async_refresh :: "'w env \<Rightarrow> client \<Rightarrow> task \<Rightarrow> 'w hass \<Rightarrow> 'w hass" where
  "async_refresh env cl tk h =
     (if snd tk < length (coordinators h) then
        (let c = coordinators h ! snd tk;
             (r, h1) = async_update_tile env cl (update_tile c) h;
             c' = (case r of
                     Inr v \<Rightarrow> c\<lparr>last_update_success := True, coord_data := v\<rparr>
                   | Inl e \<Rightarrow> c\<lparr>last_update_success := False\<rparr>)
         in log_event (EvRefreshSettle (fst tk))
              (h1\<lparr>coordinators := (coordinators h1)[snd tk := c']\<rparr>))
      else log_event (EvRefreshSettle (fst tk)) h)"

text \<open>
  The event loop decides at every step whether a waiting task is let in or which
  running task completes next; a schedule lists these decisions.  A decision that
  cannot be followed is replaced by the one that can, and once the schedule is
  used up waiting tasks are let in first and the oldest running task completes.
\<close>

datatype choice = Admit | Complete nat

fun wants_admit :: "choice list \<Rightarrow> bool" where
  "wants_admit (Complete k # cs) = False"
| "wants_admit cs = True"

fun pick :: "choice list \<Rightarrow> nat \<Rightarrow> nat" where
  "pick (Complete k # cs) n = k mod n"
| "pick cs n = 0"

text \<open>
  Modelled from the spec: \<^verbatim>\<open>gather_with_concurrency(limit, *tasks)\<close> is in the
  host's \<^verbatim>\<open>util.async_\<close>.  The spec: ``run N async tasks with a concurrency
  ceiling, suspend until all complete''; ``additional refreshes queue and start only
  as running ones complete''.  \<open>queue\<close> holds the tasks not yet started, in the order
  given, and \<open>running\<close> the tasks in flight.  With a ceiling of zero no task can
  ever start and the call does not return: the result is \<open>None\<close>.
\<close>

function gather_loop ::
  "'w env \<Rightarrow> client \<Rightarrow> nat \<Rightarrow> choice list \<Rightarrow> task list \<Rightarrow> task list \<Rightarrow>
   'w hass \<Rightarrow> 'w hass option" where
  "gather_loop env cl limit sched queue running h =
     (if queue = [] \<and> running = [] then Some h
      else if queue \<noteq> [] \<and> length running < limit \<and> (running = [] \<or> wants_admit sched) then
        gather_loop env cl limit (tl sched) (tl queue) (running @ [hd queue])
          (log_event (EvRefreshStart (fst (hd queue))) h)
      else if running = [] then None
      else
        gather_loop env cl limit (tl sched) queue
          (take (pick sched (length running)) running
             @ drop (Suc (pick sched (length running))) running)
          (async_refresh env cl (running ! pick sched (length running)) h))"
  by pat_completeness auto
termination
proof (relation "measure (\<lambda>(env, cl, limit, sched, queue, running, h).
                   2 * length queue + length running)", goal_cases)
  case 1
  show ?case by simp
next
  case (2 env cl limit sched queue running h)
  then show ?case by (cases queue) simp_all
next
  case (3 env cl limit sched queue running h)
  then have "0 < length running" by simp
  then have "pick sched (length running) < length running"
    by (cases "(sched, length running)" rule: pick.cases) simp_all
  then show ?case by simp
qed

declare gather_loop.simps [simp del]

definition gather_with_concurrency ::
  "'w env \<Rightarrow> client \<Rightarrow> nat \<Rightarrow> choice list \<Rightarrow> task list \<Rightarrow> 'w hass \<Rightarrow>
   'w hass option" where
  "gather_with_concurrency env cl limit sched tasks h =
     gather_loop env cl limit sched tasks [] h"

text \<open>
  The loop over \<^verbatim>\<open>hass.data[DOMAIN][DATA_TILE][entry.entry_id].items()\<close>: one
  coordinator is constructed per Tile, the chained assignment stores it under the
  Tile's UUID, and its refresh coroutine is appended to
  \<^verbatim>\<open>coordinator_init_tasks\<close> (a coroutine does not run before it is awaited).
\<close>

fun create_coordinators ::
  "config_entry \<Rightarrow> (string \<times> tile) list \<Rightarrow> task list \<Rightarrow> 'w hass \<Rightarrow> task list \<times> 'w hass" where
  "create_coordinators entry [] tasks h = (tasks, h)"
| "create_coordinators entry ((uuid, t) # rest) tasks h =
     (let (ref, h1) =
            new_coordinator (DataUpdateCoordinator (tile_name t) DEFAULT_UPDATE_INTERVAL t) h
      in create_coordinators entry rest (tasks @ [(uuid, ref)])
           (log_event (EvCreateCoordinator uuid) (set_coordinator entry uuid ref h1)))"

subsection \<open>The entry points\<close>

text \<open>\<^verbatim>\<open>async_setup\<close>\<close>

definition async_setup :: "'w hass \<Rightarrow> bool \<times> 'w hass" where
  "async_setup h =
     (True, h\<lparr>tile_data := Some \<lparr>data_coordinator = Map.empty, data_tile = Map.empty\<rparr>\<rparr>)"

text \<open>
  The \<^verbatim>\<open>try\<close> block of \<^verbatim>\<open>async_setup_entry\<close>: login, then discovery; the
  first exception leaves the block.
\<close>

definition login_and_discover ::
  "'w env \<Rightarrow> config_entry \<Rightarrow> 'w hass \<Rightarrow> (lib_exn + client \<times> (string \<times> tile) list) \<times> 'w hass" where
  "login_and_discover env entry h =
     (let (r, w1) = login env (conf_username entry) (conf_password entry) (world h);
          h1 = log_event (EvLogin (conf_username entry)) (h\<lparr>world := w1\<rparr>)
      in case r of
           Inl err \<Rightarrow> (Inl err, h1)
         | Inr cl \<Rightarrow>
             (let (r2, w2) = get_tiles env cl (world h1);
                  h2 = log_event EvGetTiles (h1\<lparr>world := w2\<rparr>)
              in case r2 of
                   Inl err \<Rightarrow> (Inl err, h2)
                 | Inr tiles \<Rightarrow> (Inr (cl, tiles), h2)))"

text \<open>The \<^verbatim>\<open>except\<close> clauses of that block; an exception outside the family passes.\<close>

definition setup_failure :: "lib_exn \<Rightarrow> exn + bool" where
  "setup_failure err =
     (if is_InvalidAuthError err then Inr False
      else if is_TileError err then Inl (ConfigEntryNotReady ''Error during integration setup'')
      else Inl (Lib err))"

text \<open>
  \<^verbatim>\<open>async_setup_entry\<close>.  The result is \<open>None\<close> when the call does not return,
  \<open>Inr b\<close> when it returns \<open>b\<close> and \<open>Inl e\<close> when it raises \<open>e\<close>.  The first
  assignment raises \<^verbatim>\<open>KeyError\<close> when \<^verbatim>\<open>hass.data\<close> has no entry for the
  domain, that is, when \<^verbatim>\<open>async_setup\<close> has not run.
\<close>

definition async_setup_entry ::
  "'w env \<Rightarrow> string \<Rightarrow> choice list \<Rightarrow> 'w hass \<Rightarrow> config_entry \<Rightarrow>
   ((exn + bool) \<times> 'w hass) option" where
  "async_setup_entry env domain sched h entry =
     (case tile_data h of
        None \<Rightarrow> Some (Inl (KeyError domain), h)
      | Some d \<Rightarrow>
          (let h1 = h\<lparr>tile_data :=
                       Some (d\<lparr>data_coordinator := (data_coordinator d)(entry_id entry \<mapsto> Map.empty),
                               data_tile := (data_tile d)(entry_id entry \<mapsto> [])\<rparr>)\<rparr>;
               h2 = migrate_entities domain entry h1;
               (r, h3) = login_and_discover env entry h2
           in case r of
                Inl err \<Rightarrow> Some (setup_failure err, h3)
              | Inr (cl, tiles) \<Rightarrow>
                  (let h4 = h3\<lparr>tile_data :=
                               map_option (\<lambda>d'. d'\<lparr>data_tile := (data_tile d')(entry_id entry \<mapsto> tiles)\<rparr>)
                                 (tile_data h3)\<rparr>;
                       (tasks, h5) = create_coordinators entry tiles [] h4
                   in case gather_with_concurrency env cl DEFAULT_INIT_TASK_LIMIT sched tasks h5 of
                        None \<Rightarrow> None
                      | Some h6 \<Rightarrow> Some (Inr True, log_event (EvSetupPlatforms PLATFORMS) h6))))"

text \<open>
  \<^verbatim>\<open>async_unload_entry\<close>.  \<^verbatim>\<open>dict.pop\<close> without a default raises
  \<^verbatim>\<open>KeyError\<close> for a missing key.
\<close>

definition async_unload_entry ::
  "'w env \<Rightarrow> string \<Rightarrow> 'w hass \<Rightarrow> config_entry \<Rightarrow> (exn + bool) \<times> 'w hass" where
  "async_unload_entry env domain h entry =
     (let (unload_ok, w1) = unload_platforms env entry PLATFORMS (world h);
          h1 = log_event (EvUnloadPlatforms PLATFORMS) (h\<lparr>world := w1\<rparr>)
      in if unload_ok then
           (case tile_data h1 of
              None \<Rightarrow> (Inl (KeyError domain), h1)
            | Some d \<Rightarrow>
                (case data_coordinator d (entry_id entry) of
                   None \<Rightarrow> (Inl (KeyError (entry_id entry)), h1)
                 | Some cm \<Rightarrow>
                     (Inr True,
                      h1\<lparr>tile_data :=
                           Some (d\<lparr>data_coordinator := (data_coordinator d)(entry_id entry := None)\<rparr>)\<rparr>)))
         else (Inr False, h1))"

subsection \<open>Vocabulary of the properties\<close>

text \<open>\<^verbatim>\<open>ent_reg.entities[entity_id]\<close>\<close>

definition lookup_entity :: "string \<Rightarrow> entity list \<Rightarrow> entity option" where
  "lookup_entity eid reg = find (\<lambda>e. entity_id e = eid) reg"

text \<open>
  \<^verbatim>\<open>hass.data[DOMAIN][DATA_COORDINATOR].get(entry_id)\<close> and
  \<^verbatim>\<open>hass.data[DOMAIN][DATA_TILE].get(entry_id)\<close>.
\<close>

definition coordinators_of :: "string \<Rightarrow> 'w hass \<Rightarrow> (string \<rightharpoonup> coordinator_ref) option" where
  "coordinators_of eid h = (case tile_data h of None \<Rightarrow> None | Some d \<Rightarrow> data_coordinator d eid)"

definition tiles_of :: "string \<Rightarrow> 'w hass \<Rightarrow> (string \<times> tile) list option" where
  "tiles_of eid h = (case tile_data h of None \<Rightarrow> None | Some d \<Rightarrow> data_tile d eid)"

text \<open>
  The state of \<^verbatim>\<open>async_setup_entry\<close> after its two assignments and the
  migration loop.
\<close>

definition setup_start :: "string \<Rightarrow> config_entry \<Rightarrow> domain_data \<Rightarrow> 'w hass \<Rightarrow> 'w hass" where
  "setup_start domain entry d h =
     migrate_entities domain entry
       (h\<lparr>tile_data :=
            Some (d\<lparr>data_coordinator := (data_coordinator d)(entry_id entry \<mapsto> Map.empty),
                    data_tile := (data_tile d)(entry_id entry \<mapsto> [])\<rparr>)\<rparr>)"

text \<open>
  The number of refresh tasks in flight after a log of calls: those started and not
  yet settled.
\<close>

fun flight_delta :: "event \<Rightarrow> int" where
  "flight_delta (EvRefreshStart u) = 1"
| "flight_delta (EvRefreshSettle u) = - 1"
| "flight_delta e = 0"

definition in_flight :: "event list \<Rightarrow> int" where
  "in_flight tr = sum_list (map flight_delta tr)"

text \<open>
  The step of \<^verbatim>\<open>async_setup_entry\<close> a call belongs to.
\<close>

fun phase :: "event \<Rightarrow> nat" where
  "phase (EvUpdateEntity eid uid) = 0"
| "phase (EvLogin u) = 1"
| "phase EvGetTiles = 2"
| "phase (EvCreateCoordinator u) = 3"
| "phase (EvRefreshStart u) = 4"
| "phase (EvTileUpdate u) = 4"
| "phase EvClientInit = 4"
| "phase (EvRefreshSettle u) = 4"
| "phase (EvSetupPlatforms ps) = 5"
| "phase (EvUnloadPlatforms ps) = 6"

text \<open>
  The calls a refresh cycle makes through the update method.
\<close>

fun is_update_event :: "event \<Rightarrow> bool" where
  "is_update_event (EvTileUpdate u) = True"
| "is_update_event EvClientInit = True"
| "is_update_event e = False"

text \<open>
  The logs a pool with the given ceiling can write, from the UUIDs of the tasks
  waiting and of the tasks running: a waiting task starts only while fewer tasks than
  the ceiling run, a running task makes its calls and settles.
\<close>

inductive pool_run :: "nat \<Rightarrow> string list \<Rightarrow> string list \<Rightarrow> event list \<Rightarrow> bool" where
  drained: "pool_run limit [] [] []"
| admit: "length running < limit \<Longrightarrow> pool_run limit queue (running @ [u]) tr \<Longrightarrow>
          pool_run limit (u # queue) running (EvRefreshStart u # tr)"
| complete: "i < length running \<Longrightarrow> \<forall>e \<in> set upd. is_update_event e \<Longrightarrow>
          pool_run limit queue (take i running @ drop (Suc i) running) tr \<Longrightarrow>
          pool_run limit queue running (upd @ EvRefreshSettle (running ! i) # tr)"

text \<open>
  The coordinator the loop of \<^verbatim>\<open>async_setup_entry\<close> constructs for a Tile, and
  the part of a coordinator that its constructor fixes.
\<close>

definition coordinator_for :: "tile \<Rightarrow> coordinator" where
  "coordinator_for t = DataUpdateCoordinator (tile_name t) DEFAULT_UPDATE_INTERVAL t"

definition coordinator_config :: "coordinator \<Rightarrow> string \<times> nat \<times> tile" where
  "coordinator_config c = (coord_name c, update_interval c, update_tile c)"

text \<open>
  The coordinator stored for an entry under a Tile UUID:
  \<^verbatim>\<open>hass.data[DOMAIN][DATA_COORDINATOR][entry_id].get(uuid)\<close>, dereferenced.
\<close>

definition coordinator_at :: "string \<Rightarrow> string \<Rightarrow> 'w hass \<Rightarrow> coordinator option" where
  "coordinator_at eid uuid h =
     (case coordinators_of eid h of
        None \<Rightarrow> None
      | Some cm \<Rightarrow>
          (case cm uuid of
             None \<Rightarrow> None
           | Some ref \<Rightarrow> if ref < length (coordinators h) then Some (coordinators h ! ref) else None))"

text \<open>
  The state of \<^verbatim>\<open>async_setup_entry\<close> after a successful \<^verbatim>\<open>try\<close> block.
\<close>

definition setup_discovered ::
  "string \<Rightarrow> config_entry \<Rightarrow> domain_data \<Rightarrow> 'w \<Rightarrow> (string \<times> tile) list \<Rightarrow> 'w hass \<Rightarrow> 'w hass" where
  "setup_discovered domain entry d w2 tiles h =
     (let h3 = log_event EvGetTiles
                 (log_event (EvLogin (conf_username entry))
                    ((setup_start domain entry d h)\<lparr>world := w2\<rparr>))
      in h3\<lparr>tile_data :=
              map_option (\<lambda>d'. d'\<lparr>data_tile := (data_tile d')(entry_id entry \<mapsto> tiles)\<rparr>)
                (tile_data h3)\<rparr>)"

text \<open>
  The calls of the migration loop.
\<close>

definition migration_events :: "string \<Rightarrow> config_entry \<Rightarrow> 'w hass \<Rightarrow> event list" where
  "migration_events domain entry h =
     map (\<lambda>e. EvUpdateEntity (entity_id e) (new_unique_id domain entry e))
       (filter (needs_migration entry) (registry h))"

subsection \<open>A concrete installation\<close>

text \<open>
  One account with three Tiles: the first refreshes, the session of the second has
  expired, the third fails with another error.  The world counts the calls of
  \<^verbatim>\<open>tile.async_update\<close>.
\<close>

definition alice :: config_entry where
  "alice = \<lparr>entry_id = ''e1'', conf_username = ''alice'', conf_password = ''secret''\<rparr>"

definition keys_entity :: entity where
  "keys_entity = \<lparr>entity_id = ''dt.keys'', config_entry_id = ''e1'', unique_id = ''tile_19a4''\<rparr>"

definition wallet_entity :: entity where
  "wallet_entity = \<lparr>entity_id = ''dt.wallet'', config_entry_id = ''e1'', unique_id = ''alice_b7c2''\<rparr>"

definition bag_entity :: entity where
  "bag_entity = \<lparr>entity_id = ''dt.bag'', config_entry_id = ''e1'', unique_id = ''alice2_d4e5''\<rparr>"

definition bike_entity :: entity where
  "bike_entity = \<lparr>entity_id = ''dt.bike'', config_entry_id = ''e1'', unique_id = ''19a5''\<rparr>"

definition other_entity :: entity where
  "other_entity = \<lparr>entity_id = ''dt.car'', config_entry_id = ''e2'', unique_id = ''tile_ffff''\<rparr>"

definition demo_registry :: "entity list" where
  "demo_registry = [keys_entity, wallet_entity, bag_entity, bike_entity, other_entity]"

definition demo_tiles :: "(string \<times> tile) list" where
  "demo_tiles = [(''t1'', \<lparr>tile_uuid = ''t1'', tile_name = ''Keys''\<rparr>),
                 (''t2'', \<lparr>tile_uuid = ''t2'', tile_name = ''Wallet''\<rparr>),
                 (''t3'', \<lparr>tile_uuid = ''t3'', tile_name = ''Bag''\<rparr>)]"

definition demo_env :: "nat env" where
  "demo_env =
     \<lparr>login = (\<lambda>u p w. (if p = ''secret'' then Inr 7
                         else if p = ''wrong'' then Inl (InvalidAuthError ''denied'')
                         else Inl (TileError ''timeout''), w)),
      get_tiles = (\<lambda>cl w. (Inr demo_tiles, w)),
      tile_update = (\<lambda>t w. (if tile_uuid t = ''t2'' then Inl (SessionExpiredError ''expired'')
                             else if tile_uuid t = ''t3'' then Inl (TileError ''boom'')
                             else Inr (Some ''home''), Suc w)),
      client_init = (\<lambda>cl w. (Inr (), w)),
      unload_platforms = (\<lambda>e ps w. (True, w))\<rparr>"

definition demo_hass :: "nat hass" where
  "demo_hass = \<lparr>tile_data = Some \<lparr>data_coordinator = Map.empty, data_tile = Map.empty\<rparr>,
                 registry = demo_registry, coordinators = [], world = 0, trace = []\<rparr>"

definition loaded_hass :: "nat hass" where
  "loaded_hass =
     \<lparr>tile_data =
        Some \<lparr>data_coordinator =
                 [''e1'' \<mapsto> [''t1'' \<mapsto> 0]],
               data_tile = [''e1'' \<mapsto> [(''t1'', \<lparr>tile_uuid = ''t1'', tile_name = ''Keys''\<rparr>)]]\<rparr>,
      registry = [],
      coordinators = [DataUpdateCoordinator ''Keys'' DEFAULT_UPDATE_INTERVAL
                        \<lparr>tile_uuid = ''t1'', tile_name = ''Keys''\<rparr>],
      world = 0, trace = []\<rparr>"

section \<open>Identity migration\<close>

lemmas demo_defs = alice_def keys_entity_def wallet_entity_def bag_entity_def bike_entity_def
  other_entity_def demo_registry_def demo_hass_def

lemma split_from_absent:
  "\<not> occurs sep s \<Longrightarrow> split_from sep acc s = [rev acc @ s]"
proof (induction s arbitrary: acc)
  case Nil
  show ?case by (simp add: split_from.simps)
next
  case (Cons c cs)
  from Cons.prems have np: "\<not> prefix sep (c # cs)" and no: "\<not> occurs sep cs" by simp_all
  have "split_from sep acc (c # cs) = split_from sep (c # acc) cs"
    using np by (subst split_from.simps) simp
  also have "\<dots> = [rev (c # acc) @ cs]" using no by (rule Cons.IH)
  finally show ?case by simp
qed

lemma split_absent: "\<not> occurs sep s \<Longrightarrow> split s sep = [s]"
  by (simp add: split_def split_from_absent)

lemma split_at_prefix:
  "sep \<noteq> [] \<Longrightarrow> split (sep @ rest) sep = [] # split rest sep"
  unfolding split_def by (subst split_from.simps) simp

lemma split_not_Nil: "split_from sep acc s \<noteq> []"
  by (induction sep acc s rule: split_from.induct) (subst split_from.simps, simp)

lemma join_Nil_Cons: "ps \<noteq> [] \<Longrightarrow> join sep ([] # ps) = sep @ join sep ps"
  by (cases ps) simp_all

lemma new_unique_id_legacy:
  assumes "unique_id e = domain @ ''_'' @ rest"
  shows "new_unique_id domain entry e =
           conf_username entry @ ''_'' @ join (conf_username entry @ ''_'') (split rest (domain @ ''_''))"
proof -
  have "split (unique_id e) (domain @ ''_'') = [] # split rest (domain @ ''_'')"
    using split_at_prefix[of "domain @ ''_''" rest] assms by simp
  moreover have "split rest (domain @ ''_'') \<noteq> []" by (simp add: split_def split_not_Nil)
  ultimately show ?thesis by (simp add: new_unique_id_def join_Nil_Cons)
qed

lemma registry_migrate_loop:
  "registry (migrate_loop domain entry es h) =
     fold (\<lambda>e. async_update_entity (entity_id e) (new_unique_id domain entry e)) es (registry h)"
  by (induction es arbitrary: h) (simp_all add: log_event_def)

lemma trace_migrate_loop:
  "trace (migrate_loop domain entry es h) =
     trace h @ map (\<lambda>e. EvUpdateEntity (entity_id e) (new_unique_id domain entry e)) es"
  by (induction es arbitrary: h) (simp_all add: log_event_def)

lemma other_migrate_loop:
  "world (migrate_loop domain entry es h) = world h"
  "tile_data (migrate_loop domain entry es h) = tile_data h"
  by (induction es arbitrary: h) (simp_all add: log_event_def)

lemma fold_update_entity:
  "distinct (map entity_id es) \<Longrightarrow>
   fold (\<lambda>e. async_update_entity (entity_id e) (f e)) es reg =
     map (\<lambda>x. case find (\<lambda>e. entity_id e = entity_id x) es of
                 None \<Rightarrow> x | Some e \<Rightarrow> x\<lparr>unique_id := f e\<rparr>) reg"
proof (induction es arbitrary: reg)
  case Nil
  show ?case by simp
next
  case (Cons e es)
  have nin: "entity_id e \<notin> entity_id ` set es" and d: "distinct (map entity_id es)"
    using Cons.prems by simp_all
  have none: "find (\<lambda>y. entity_id y = entity_id e) es = None"
    unfolding find_None_iff using nin by (metis imageI)
  have "fold (\<lambda>e. async_update_entity (entity_id e) (f e)) (e # es) reg =
          fold (\<lambda>e. async_update_entity (entity_id e) (f e)) es
            (async_update_entity (entity_id e) (f e) reg)"
    by simp
  also have "\<dots> = map (\<lambda>x. case find (\<lambda>e. entity_id e = entity_id x) es of
                 None \<Rightarrow> x | Some e \<Rightarrow> x\<lparr>unique_id := f e\<rparr>)
              (async_update_entity (entity_id e) (f e) reg)"
    by (rule Cons.IH[OF d])
  also have "\<dots> = map (\<lambda>x. case find (\<lambda>e. entity_id e = entity_id x) (e # es) of
                 None \<Rightarrow> x | Some e \<Rightarrow> x\<lparr>unique_id := f e\<rparr>) reg"
    unfolding async_update_entity_def map_map
    by (rule map_cong) (auto simp: none)
  finally show ?case .
qed

lemma find_filter_distinct:
  assumes "distinct (map entity_id reg)" "x \<in> set reg"
  shows "find (\<lambda>e. entity_id e = entity_id x) (filter P reg) = (if P x then Some x else None)"
  using assms
proof (induction reg)
  case Nil
  then show ?case by simp
next
  case (Cons a reg)
  show ?case
  proof (cases "x = a")
    case True
    have "entity_id a \<notin> entity_id ` set reg" using Cons.prems(1) by simp
    then have "find (\<lambda>e. entity_id e = entity_id a) (filter P reg) = None"
      unfolding find_None_iff by (metis imageI filter_is_subset subsetD)
    then show ?thesis using True by simp
  next
    case False
    then have xin: "x \<in> set reg" using Cons.prems by simp
    then have "entity_id a \<noteq> entity_id x" using Cons.prems(1) by auto
    then show ?thesis using Cons.IH xin Cons.prems(1) by simp
  qed
qed

lemma registry_migrate_entities:
  assumes "distinct (map entity_id (registry h))"
  shows "registry (migrate_entities domain entry h) =
           map (\<lambda>e. if needs_migration entry e then e\<lparr>unique_id := new_unique_id domain entry e\<rparr> else e)
             (registry h)"
proof -
  have d: "distinct (map entity_id (filter (needs_migration entry) (registry h)))"
    using assms by (simp add: distinct_map_filter)
  show ?thesis
    unfolding migrate_entities_def registry_migrate_loop fold_update_entity[OF d]
    by (rule map_cong) (simp_all add: find_filter_distinct[OF assms])
qed

lemma lookup_entity_map:
  assumes "distinct (map entity_id reg)" "e \<in> set reg" "\<And>x. entity_id (g x) = entity_id x"
  shows "lookup_entity (entity_id e) (map g reg) = Some (g e)"
  using assms(1,2)
proof (induction reg)
  case Nil
  then show ?case by simp
next
  case (Cons a reg)
  show ?case
  proof (cases "e = a")
    case True
    then show ?thesis by (simp add: lookup_entity_def assms(3))
  next
    case False
    then have ein: "e \<in> set reg" using Cons.prems by simp
    then have "entity_id a \<noteq> entity_id e" using Cons.prems(1) by auto
    then show ?thesis using Cons.IH ein Cons.prems(1) by (simp add: lookup_entity_def assms(3))
  qed
qed

text \<open>
  Claim C1, as amended.  An entity of the entry whose unique id does not start with
  the username and has the legacy form \<^verbatim>\<open><domain>_<uuid>\<close>, where
  \<^verbatim>\<open><domain>_\<close> does not occur again inside the UUID, has the unique id
  \<^verbatim>\<open><username>_<uuid>\<close> after the migration step: it starts with
  \<^verbatim>\<open><username>_\<close> and the UUID is the one stored before.  (The registry's
  dictionary has one entry per entity id.)
\<close>

theorem migration_rewrites_legacy_ids:
  assumes "distinct (map entity_id (registry h))"
    and "e \<in> set (registry h)"
    and "config_entry_id e = entry_id entry"
    and "\<not> startswith (unique_id e) (conf_username entry)"
    and "unique_id e = domain @ ''_'' @ uuid"
    and "\<not> occurs (domain @ ''_'') uuid"
  shows "lookup_entity (entity_id e) (registry (migrate_entities domain entry h)) =
           Some (e\<lparr>unique_id := conf_username entry @ ''_'' @ uuid\<rparr>)
         \<and> startswith (conf_username entry @ ''_'' @ uuid) (conf_username entry @ ''_'')"
proof -
  have nm: "needs_migration entry e"
    using assms(3,4) by (simp add: needs_migration_def)
  have "new_unique_id domain entry e = conf_username entry @ ''_'' @ uuid"
    using new_unique_id_legacy[OF assms(5), of entry] split_absent[OF assms(6)] by simp
  then show ?thesis
    using nm lookup_entity_map[OF assms(1,2)]
    by (simp add: registry_migrate_entities[OF assms(1)] startswith_def)
qed

theorem migration_rewrites_legacy_ids_witness:
  "distinct (map entity_id (registry demo_hass))
   \<and> keys_entity \<in> set (registry demo_hass)
   \<and> config_entry_id keys_entity = entry_id alice
   \<and> \<not> startswith (unique_id keys_entity) (conf_username alice)
   \<and> unique_id keys_entity = ''tile'' @ ''_'' @ ''19a4''
   \<and> \<not> occurs (''tile'' @ ''_'') ''19a4''
   \<and> lookup_entity ''dt.keys'' (registry (migrate_entities ''tile'' alice demo_hass)) =
        Some \<lparr>entity_id = ''dt.keys'', config_entry_id = ''e1'', unique_id = ''alice_19a4''\<rparr>"
proof -
  have 1: "distinct (map entity_id (registry demo_hass))" by (simp add: demo_defs)
  have 2: "keys_entity \<in> set (registry demo_hass)" by (simp add: demo_defs)
  have 3: "config_entry_id keys_entity = entry_id alice" by (simp add: demo_defs)
  have 4: "\<not> startswith (unique_id keys_entity) (conf_username alice)"
    by (simp add: demo_defs startswith_def)
  have 5: "unique_id keys_entity = ''tile'' @ ''_'' @ ''19a4''" by (simp add: demo_defs)
  have 6: "\<not> occurs (''tile'' @ ''_'') ''19a4''" by simp
  show ?thesis
    using 1 2 3 4 5 6 migration_rewrites_legacy_ids[OF 1 2 3 4 5 6]
    by (simp add: keys_entity_def alice_def)
qed

text \<open>
  Claim C1 as stated does not hold for every entity whose unique id does not start
  with the username: a unique id without the \<^verbatim>\<open><domain>_\<close> prefix is split
  into one piece and joined back unchanged, so it does not start with
  \<^verbatim>\<open><username>_\<close> afterwards.
\<close>

theorem bare_uuid_not_migrated:
  "bike_entity \<in> set (registry demo_hass)
   \<and> config_entry_id bike_entity = entry_id alice
   \<and> \<not> startswith (unique_id bike_entity) (conf_username alice)
   \<and> lookup_entity (entity_id bike_entity) (registry (migrate_entities ''tile'' alice demo_hass))
       = Some bike_entity
   \<and> \<not> startswith (unique_id bike_entity) (conf_username alice @ ''_'')"
  by (simp add: demo_defs startswith_def migrate_entities_def needs_migration_def
      new_unique_id_def split_def split_from.simps async_update_entity_def lookup_entity_def
      log_event_def)

lemma entity_ids_migrate_entities:
  assumes "distinct (map entity_id (registry h))"
  shows "map entity_id (registry (migrate_entities domain entry h)) = map entity_id (registry h)"
  unfolding registry_migrate_entities[OF assms] by (induction "registry h") auto

lemma unselected_untouched:
  assumes "distinct (map entity_id (registry h))" "e \<in> set (registry h)"
    and "\<not> needs_migration entry e"
  shows "lookup_entity (entity_id e) (registry (migrate_entities domain entry h)) = Some e"
  using lookup_entity_map[OF assms(1,2)] assms(3)
  by (simp add: registry_migrate_entities[OF assms(1)])

lemma legacy_becomes_new:
  assumes "startswith (unique_id e) (domain @ ''_'')"
  shows "startswith (new_unique_id domain entry e) (conf_username entry)"
proof -
  from assms obtain rest where "unique_id e = (domain @ ''_'') @ rest"
    unfolding startswith_def prefix_def by blast
  then have "unique_id e = domain @ ''_'' @ rest" by simp
  from new_unique_id_legacy[OF this, of entry] show ?thesis
    by (simp add: startswith_def)
qed

text \<open>
  Claim C6.  An entity whose unique id already starts with the username is the same
  registry entry after the migration step, and after running the step a second time.
  When every entity of the entry is in the new or in the legacy format, the second run
  changes nothing in the registry at all.
\<close>

theorem migration_leaves_new_format:
  assumes "distinct (map entity_id (registry h))"
    and "e \<in> set (registry h)"
    and "startswith (unique_id e) (conf_username entry)"
  shows "lookup_entity (entity_id e) (registry (migrate_entities domain entry h)) = Some e
       \<and> lookup_entity (entity_id e)
           (registry (migrate_entities domain entry (migrate_entities domain entry h))) = Some e
       \<and> ((\<forall>x \<in> set (registry h). config_entry_id x = entry_id entry \<longrightarrow>
              startswith (unique_id x) (conf_username entry)
              \<or> startswith (unique_id x) (domain @ ''_''))
          \<longrightarrow> registry (migrate_entities domain entry (migrate_entities domain entry h))
                = registry (migrate_entities domain entry h))"
proof -
  let ?h' = "migrate_entities domain entry h"
  let ?g = "\<lambda>x. if needs_migration entry x then x\<lparr>unique_id := new_unique_id domain entry x\<rparr> else x"
  have nm: "\<not> needs_migration entry e"
    using assms(3) by (simp add: needs_migration_def)
  have d': "distinct (map entity_id (registry ?h'))"
    using assms(1) by (simp add: entity_ids_migrate_entities)
  have r1: "registry ?h' = map ?g (registry h)"
    by (rule registry_migrate_entities[OF assms(1)])
  have r2: "registry (migrate_entities domain entry ?h') = map ?g (registry ?h')"
    by (rule registry_migrate_entities[OF d'])
  have first: "lookup_entity (entity_id e) (registry ?h') = Some e"
    by (rule unselected_untouched[OF assms(1,2) nm])
  have "e \<in> set (registry ?h')"
    unfolding r1 using assms(2) nm by force
  then have second: "lookup_entity (entity_id e) (registry (migrate_entities domain entry ?h')) = Some e"
    by (rule unselected_untouched[OF d' _ nm])
  have third: "registry (migrate_entities domain entry ?h') = registry ?h'"
    if fmt: "\<forall>x \<in> set (registry h). config_entry_id x = entry_id entry \<longrightarrow>
              startswith (unique_id x) (conf_username entry)
              \<or> startswith (unique_id x) (domain @ ''_'')"
  proof -
    have "?g (?g x) = ?g x" if "x \<in> set (registry h)" for x
    proof (cases "needs_migration entry x")
      case True
      then have "startswith (unique_id x) (domain @ ''_'')"
        using fmt that by (auto simp: needs_migration_def)
      then have "\<not> needs_migration entry (x\<lparr>unique_id := new_unique_id domain entry x\<rparr>)"
        using legacy_becomes_new[of x domain entry] by (simp add: needs_migration_def)
      then show ?thesis using True by simp
    next
      case False
      then show ?thesis by simp
    qed
    then have "map ?g (map ?g (registry h)) = map ?g (registry h)"
      unfolding map_map by (intro map_cong) simp_all
    then show ?thesis unfolding r2 r1 .
  qed
  show ?thesis using first second third by blast
qed

theorem migration_leaves_new_format_witness:
  "distinct (map entity_id [keys_entity, wallet_entity, other_entity])
   \<and> wallet_entity \<in> set [keys_entity, wallet_entity, other_entity]
   \<and> startswith (unique_id wallet_entity) (conf_username alice)
   \<and> startswith (unique_id keys_entity) (''tile'' @ ''_'')
   \<and> config_entry_id other_entity \<noteq> entry_id alice
   \<and> lookup_entity ''dt.wallet''
        (registry (migrate_entities ''tile'' alice
           (demo_hass\<lparr>registry := [keys_entity, wallet_entity, other_entity]\<rparr>)))
       = Some \<lparr>entity_id = ''dt.wallet'', config_entry_id = ''e1'', unique_id = ''alice_b7c2''\<rparr>
   \<and> registry (migrate_entities ''tile'' alice (migrate_entities ''tile'' alice
          (demo_hass\<lparr>registry := [keys_entity, wallet_entity, other_entity]\<rparr>)))
       = registry (migrate_entities ''tile'' alice
          (demo_hass\<lparr>registry := [keys_entity, wallet_entity, other_entity]\<rparr>))"
proof -
  let ?h = "demo_hass\<lparr>registry := [keys_entity, wallet_entity, other_entity]\<rparr>"
  have 1: "distinct (map entity_id (registry ?h))" by (simp add: demo_defs)
  have 2: "wallet_entity \<in> set (registry ?h)" by simp
  have 3: "startswith (unique_id wallet_entity) (conf_username alice)"
    by (simp add: demo_defs startswith_def)
  have 4: "\<forall>x \<in> set (registry ?h). config_entry_id x = entry_id alice \<longrightarrow>
             startswith (unique_id x) (conf_username alice)
             \<or> startswith (unique_id x) (''tile'' @ ''_'')"
    by (simp add: demo_defs startswith_def)
  have 5: "startswith (unique_id keys_entity) (''tile'' @ ''_'')"
    "config_entry_id other_entity \<noteq> entry_id alice"
    by (simp_all add: demo_defs startswith_def)
  show ?thesis
    using 1 2 3 4 5 migration_leaves_new_format[OF 1 2 3, of "''tile''"]
    by (simp add: wallet_entity_def)
qed

text \<open>
  Claim C9.  The selection tests the bare username, with no separator: an entity whose
  unique id is the username followed by anything (such as \<^verbatim>\<open>alice2_<uuid>\<close>
  under the username \<^verbatim>\<open>alice\<close>) is not selected and keeps its unique id.
\<close>

theorem username_prefix_without_separator:
  assumes "distinct (map entity_id (registry h))"
    and "e \<in> set (registry h)"
    and "unique_id e = conf_username entry @ rest"
  shows "\<not> needs_migration entry e
       \<and> e \<notin> set (filter (needs_migration entry) (registry h))
       \<and> lookup_entity (entity_id e) (registry (migrate_entities domain entry h)) = Some e"
proof -
  have nm: "\<not> needs_migration entry e"
    using assms(3) by (simp add: needs_migration_def startswith_def)
  then show ?thesis
    using unselected_untouched[OF assms(1,2) nm] by simp
qed

theorem username_prefix_without_separator_witness:
  "distinct (map entity_id (registry demo_hass))
   \<and> bag_entity \<in> set (registry demo_hass)
   \<and> unique_id bag_entity = conf_username alice @ ''2_d4e5''
   \<and> \<not> startswith (unique_id bag_entity) (conf_username alice @ ''_'')
   \<and> \<not> needs_migration alice bag_entity
   \<and> lookup_entity ''dt.bag'' (registry (migrate_entities ''tile'' alice demo_hass))
       = Some \<lparr>entity_id = ''dt.bag'', config_entry_id = ''e1'', unique_id = ''alice2_d4e5''\<rparr>"
proof -
  have 1: "distinct (map entity_id (registry demo_hass))" by (simp add: demo_defs)
  have 2: "bag_entity \<in> set (registry demo_hass)" by (simp add: demo_defs)
  have 3: "unique_id bag_entity = conf_username alice @ ''2_d4e5''" by (simp add: demo_defs)
  have 4: "\<not> startswith (unique_id bag_entity) (conf_username alice @ ''_'')"
    by (simp add: demo_defs startswith_def)
  show ?thesis
    using 1 2 3 4 username_prefix_without_separator[OF 1 2 3, of "''tile''"]
    by (simp add: bag_entity_def)
qed

text \<open>
  Claim C3.  When the Tile's refresh raises \<^verbatim>\<open>SessionExpiredError\<close>, the update
  method calls \<^verbatim>\<open>client.async_init()\<close> (the world is the one that call leaves,
  and the call is the next one logged), it raises no \<^verbatim>\<open>UpdateFailed\<close>, and it
  returns \<^verbatim>\<open>None\<close> when the new session is set up.  When the refresh raises any
  other \<^verbatim>\<open>TileError\<close>, the update method raises \<^verbatim>\<open>UpdateFailed\<close> with the
  message \<^verbatim>\<open>Error while retrieving data: \<close> followed by the error's text, and does
  not touch the session.
\<close>

theorem update_tile_error_handling:
  assumes "tile_update env t (world h) = (Inl err, w1)"
  shows "(is_SessionExpiredError err \<longrightarrow>
            world (snd (async_update_tile env cl t h)) = snd (client_init env cl w1)
          \<and> trace (snd (async_update_tile env cl t h))
              = trace h @ [EvTileUpdate (tile_uuid t), EvClientInit]
          \<and> (\<forall>m. fst (async_update_tile env cl t h) \<noteq> Inl (UpdateFailed m))
          \<and> (\<forall>u. fst (client_init env cl w1) = Inr u \<longrightarrow>
                fst (async_update_tile env cl t h) = Inr None))
       \<and> (is_TileError err \<and> \<not> is_SessionExpiredError err \<longrightarrow>
            fst (async_update_tile env cl t h)
              = Inl (UpdateFailed (''Error while retrieving data: '' @ exn_str err))
          \<and> trace (snd (async_update_tile env cl t h)) = trace h @ [EvTileUpdate (tile_uuid t)])"
  using assms
  by (auto simp: async_update_tile_def log_event_def Let_def split: prod.splits sum.splits)

theorem update_tile_error_handling_witness:
  "tile_update demo_env \<lparr>tile_uuid = ''t2'', tile_name = ''Wallet''\<rparr> (world demo_hass)
     = (Inl (SessionExpiredError ''expired''), 1)
   \<and> is_SessionExpiredError (SessionExpiredError ''expired'')
   \<and> async_update_tile demo_env 7 \<lparr>tile_uuid = ''t2'', tile_name = ''Wallet''\<rparr> demo_hass
       = (Inr None, demo_hass\<lparr>world := 1, trace := [EvTileUpdate ''t2'', EvClientInit]\<rparr>)
   \<and> tile_update demo_env \<lparr>tile_uuid = ''t3'', tile_name = ''Bag''\<rparr> (world demo_hass)
     = (Inl (TileError ''boom''), 1)
   \<and> is_TileError (TileError ''boom'') \<and> \<not> is_SessionExpiredError (TileError ''boom'')
   \<and> fst (async_update_tile demo_env 7 \<lparr>tile_uuid = ''t3'', tile_name = ''Bag''\<rparr> demo_hass)
       = Inl (UpdateFailed ''Error while retrieving data: boom'')"
proof -
  have 1: "tile_update demo_env \<lparr>tile_uuid = ''t2'', tile_name = ''Wallet''\<rparr> (world demo_hass)
             = (Inl (SessionExpiredError ''expired''), 1)"
    by (simp add: demo_env_def demo_hass_def)
  have 2: "tile_update demo_env \<lparr>tile_uuid = ''t3'', tile_name = ''Bag''\<rparr> (world demo_hass)
             = (Inl (TileError ''boom''), 1)"
    by (simp add: demo_env_def demo_hass_def)
  have 3: "client_init demo_env 7 1 = (Inr (), 1)" by (simp add: demo_env_def)
  have 4: "trace demo_hass = []" "tile_data (snd (async_update_tile demo_env 7 \<lparr>tile_uuid = ''t2'', tile_name = ''Wallet''\<rparr> demo_hass)) = tile_data demo_hass"
    "registry (snd (async_update_tile demo_env 7 \<lparr>tile_uuid = ''t2'', tile_name = ''Wallet''\<rparr> demo_hass)) = registry demo_hass"
    "coordinators (snd (async_update_tile demo_env 7 \<lparr>tile_uuid = ''t2'', tile_name = ''Wallet''\<rparr> demo_hass)) = coordinators demo_hass"
    by (simp_all add: demo_hass_def async_update_tile_def log_event_def demo_env_def)
  show ?thesis
    using 1 2 3 4 update_tile_error_handling[OF 1, of 7] update_tile_error_handling[OF 2, of 7]
    by (simp add: prod_eq_iff demo_hass_def)
qed

text \<open>
  Claim C10.  When the refresh raises \<^verbatim>\<open>SessionExpiredError\<close> and the call of
  \<^verbatim>\<open>client.async_init()\<close> made in the handler raises in turn, the update method
  raises that very exception: it is not wrapped into \<^verbatim>\<open>UpdateFailed\<close>.
\<close>

theorem reinit_failure_propagates_unwrapped:
  assumes "tile_update env t (world h) = (Inl err, w1)"
    and "is_SessionExpiredError err"
    and "client_init env cl w1 = (Inl err2, w2)"
  shows "fst (async_update_tile env cl t h) = Inl (Lib err2)
       \<and> (\<forall>m. fst (async_update_tile env cl t h) \<noteq> Inl (UpdateFailed m))"
  using assms
  by (simp add: async_update_tile_def log_event_def Let_def split: prod.splits sum.splits)

theorem reinit_failure_propagates_unwrapped_witness:
  "tile_update (demo_env\<lparr>client_init := \<lambda>cl w. (Inl (TileError ''down''), w)\<rparr>)
       \<lparr>tile_uuid = ''t2'', tile_name = ''Wallet''\<rparr> (world demo_hass)
     = (Inl (SessionExpiredError ''expired''), 1)
   \<and> is_SessionExpiredError (SessionExpiredError ''expired'')
   \<and> client_init (demo_env\<lparr>client_init := \<lambda>cl w. (Inl (TileError ''down''), w)\<rparr>) 7 1
     = (Inl (TileError ''down''), 1)
   \<and> is_TileError (TileError ''down'')
   \<and> fst (async_update_tile (demo_env\<lparr>client_init := \<lambda>cl w. (Inl (TileError ''down''), w)\<rparr>) 7
            \<lparr>tile_uuid = ''t2'', tile_name = ''Wallet''\<rparr> demo_hass)
       = Inl (Lib (TileError ''down''))"
proof -
  let ?env = "demo_env\<lparr>client_init := \<lambda>cl w. (Inl (TileError ''down''), w)\<rparr>"
  have 1: "tile_update ?env \<lparr>tile_uuid = ''t2'', tile_name = ''Wallet''\<rparr> (world demo_hass)
             = (Inl (SessionExpiredError ''expired''), 1)"
    by (simp add: demo_env_def demo_hass_def)
  have 2: "is_SessionExpiredError (SessionExpiredError ''expired'')" by simp
  have 3: "client_init ?env 7 1 = (Inl (TileError ''down''), 1)" by simp
  show ?thesis
    using 1 2 3 reinit_failure_propagates_unwrapped[OF 1 2 3] by simp
qed

text \<open>
  Claim C5.  Unloading never changes the Tile mapping of any entry.  When the platforms
  do not unload, it returns \<^verbatim>\<open>False\<close> and the entry's coordinator mapping stays;
  when they unload, it returns \<^verbatim>\<open>True\<close> and the entry's coordinator mapping is
  gone (the entry has one from the moment its setup starts).  The coordinator mappings of
  the other entries stay in both cases.
\<close>

theorem unload_entry_effect:
  assumes "unload_platforms env entry PLATFORMS (world h) = (ok, w1)"
  shows "(\<forall>eid. tiles_of eid (snd (async_unload_entry env domain h entry)) = tiles_of eid h)
       \<and> (\<not> ok \<longrightarrow>
            fst (async_unload_entry env domain h entry) = Inr False
          \<and> coordinators_of (entry_id entry) (snd (async_unload_entry env domain h entry))
              = coordinators_of (entry_id entry) h)
       \<and> (ok \<and> coordinators_of (entry_id entry) h \<noteq> None \<longrightarrow>
            fst (async_unload_entry env domain h entry) = Inr True
          \<and> coordinators_of (entry_id entry) (snd (async_unload_entry env domain h entry)) = None)
       \<and> (\<forall>eid. eid \<noteq> entry_id entry \<longrightarrow>
            coordinators_of eid (snd (async_unload_entry env domain h entry))
              = coordinators_of eid h)"
proof (cases ok)
  case False
  then show ?thesis
    using assms
    by (simp add: async_unload_entry_def log_event_def tiles_of_def coordinators_of_def)
next
  case True
  show ?thesis
  proof (cases "tile_data h")
    case None
    then show ?thesis
      using assms True
      by (simp add: async_unload_entry_def log_event_def tiles_of_def coordinators_of_def)
  next
    case (Some d)
    show ?thesis
    proof (cases "data_coordinator d (entry_id entry)")
      case None
      then show ?thesis
        using assms True Some
        by (simp add: async_unload_entry_def log_event_def tiles_of_def coordinators_of_def)
    next
      case (Some cm)
      then show ?thesis
        using assms True \<open>tile_data h = Some d\<close>
        by (simp add: async_unload_entry_def log_event_def tiles_of_def coordinators_of_def)
    qed
  qed
qed


lemma migrate_entities_frame:
  "world (migrate_entities domain entry h) = world h"
  "tile_data (migrate_entities domain entry h) = tile_data h"
  by (simp_all add: migrate_entities_def other_migrate_loop)

lemma trace_migrate_entities:
  "trace (migrate_entities domain entry h) =
     trace h @ map (\<lambda>e. EvUpdateEntity (entity_id e) (new_unique_id domain entry e))
                 (filter (needs_migration entry) (registry h))"
  by (simp add: migrate_entities_def trace_migrate_loop)

lemma setup_start_frame:
  "world (setup_start domain entry d h) = world h"
  "coordinators_of (entry_id entry) (setup_start domain entry d h) = Some Map.empty"
  "tiles_of (entry_id entry) (setup_start domain entry d h) = Some []"
  "trace (setup_start domain entry d h) =
     trace h @ map (\<lambda>e. EvUpdateEntity (entity_id e) (new_unique_id domain entry e))
                 (filter (needs_migration entry) (registry h))"
  by (simp_all add: setup_start_def migrate_entities_frame trace_migrate_entities
      coordinators_of_def tiles_of_def)

lemma setup_entry_login_failed:
  assumes "tile_data h = Some d"
    and "login env (conf_username entry) (conf_password entry) (world h) = (Inl err, w1)"
  shows "async_setup_entry env domain sched h entry =
           Some (setup_failure err,
                 log_event (EvLogin (conf_username entry)) ((setup_start domain entry d h)\<lparr>world := w1\<rparr>))"
  using assms
  by (simp add: async_setup_entry_def login_and_discover_def Let_def setup_start_frame(1)
      setup_start_def[symmetric])

lemma setup_entry_discovery_failed:
  assumes "tile_data h = Some d"
    and "login env (conf_username entry) (conf_password entry) (world h) = (Inr cl, w1)"
    and "get_tiles env cl w1 = (Inl err, w2)"
  shows "async_setup_entry env domain sched h entry =
           Some (setup_failure err,
                 log_event EvGetTiles
                   ((log_event (EvLogin (conf_username entry))
                       ((setup_start domain entry d h)\<lparr>world := w1\<rparr>))\<lparr>world := w2\<rparr>))"
  using assms
  by (simp add: async_setup_entry_def login_and_discover_def Let_def setup_start_frame(1)
      setup_start_def[symmetric] log_event_def)

text \<open>
  Claim C2.  After \<^verbatim>\<open>async_setup\<close> has run: when the login raises
  \<^verbatim>\<open>InvalidAuthError\<close>, setup returns \<^verbatim>\<open>False\<close>, the entry's coordinator
  mapping is empty and no coordinator has been created; when the login, or the discovery
  after a successful login, raises any other \<^verbatim>\<open>TileError\<close>, setup raises
  \<^verbatim>\<open>ConfigEntryNotReady\<close>.
\<close>

theorem setup_entry_failure_modes:
  assumes "tile_data h = Some d"
  shows "(login env (conf_username entry) (conf_password entry) (world h) = (Inl err, w1)
            \<and> is_InvalidAuthError err \<longrightarrow>
          (\<exists>h'. async_setup_entry env domain sched h entry = Some (Inr False, h')
               \<and> coordinators_of (entry_id entry) h' = Some Map.empty
               \<and> (\<forall>u. EvCreateCoordinator u \<notin> set (drop (length (trace h)) (trace h')))))
       \<and> (login env (conf_username entry) (conf_password entry) (world h) = (Inl err, w1)
            \<and> is_TileError err \<and> \<not> is_InvalidAuthError err \<longrightarrow>
          (\<exists>h'. async_setup_entry env domain sched h entry
                  = Some (Inl (ConfigEntryNotReady ''Error during integration setup''), h')))
       \<and> (login env (conf_username entry) (conf_password entry) (world h) = (Inr cl, w1)
            \<and> get_tiles env cl w1 = (Inl err', w2)
            \<and> is_TileError err' \<and> \<not> is_InvalidAuthError err' \<longrightarrow>
          (\<exists>h'. async_setup_entry env domain sched h entry
                  = Some (Inl (ConfigEntryNotReady ''Error during integration setup''), h')))"
proof (intro conjI impI)
  assume a: "login env (conf_username entry) (conf_password entry) (world h) = (Inl err, w1)
             \<and> is_InvalidAuthError err"
  let ?h' = "log_event (EvLogin (conf_username entry)) ((setup_start domain entry d h)\<lparr>world := w1\<rparr>)"
  have "async_setup_entry env domain sched h entry = Some (Inr False, ?h')"
    using setup_entry_login_failed[OF assms, of env entry err w1 domain sched] a
    by (simp add: setup_failure_def)
  moreover have "coordinators_of (entry_id entry) ?h' = Some Map.empty"
    using setup_start_frame(2)[of entry domain d h]
    by (simp add: coordinators_of_def log_event_def)
  moreover have "\<forall>u. EvCreateCoordinator u \<notin> set (drop (length (trace h)) (trace ?h'))"
    by (auto simp: log_event_def setup_start_frame(4))
  ultimately show "\<exists>h'. async_setup_entry env domain sched h entry = Some (Inr False, h')
               \<and> coordinators_of (entry_id entry) h' = Some Map.empty
               \<and> (\<forall>u. EvCreateCoordinator u \<notin> set (drop (length (trace h)) (trace h')))"
    by blast
next
  assume a: "login env (conf_username entry) (conf_password entry) (world h) = (Inl err, w1)
             \<and> is_TileError err \<and> \<not> is_InvalidAuthError err"
  show "\<exists>h'. async_setup_entry env domain sched h entry
                  = Some (Inl (ConfigEntryNotReady ''Error during integration setup''), h')"
    using setup_entry_login_failed[OF assms, of env entry err w1 domain sched] a
    by (simp add: setup_failure_def)
next
  assume a: "login env (conf_username entry) (conf_password entry) (world h) = (Inr cl, w1)
            \<and> get_tiles env cl w1 = (Inl err', w2)
            \<and> is_TileError err' \<and> \<not> is_InvalidAuthError err'"
  show "\<exists>h'. async_setup_entry env domain sched h entry
                  = Some (Inl (ConfigEntryNotReady ''Error during integration setup''), h')"
    using setup_entry_discovery_failed[OF assms, of env entry cl w1 err' w2 domain sched] a
    by (simp add: setup_failure_def)
qed

theorem setup_entry_failure_modes_witness:
  "tile_data demo_hass = Some \<lparr>data_coordinator = Map.empty, data_tile = Map.empty\<rparr>
   \<and> login demo_env ''alice'' ''wrong'' (world demo_hass) = (Inl (InvalidAuthError ''denied''), 0)
   \<and> is_InvalidAuthError (InvalidAuthError ''denied'')
   \<and> (\<exists>h'. async_setup_entry demo_env ''tile'' [] demo_hass (alice\<lparr>conf_password := ''wrong''\<rparr>)
              = Some (Inr False, h')
           \<and> coordinators_of ''e1'' h' = Some Map.empty)
   \<and> login demo_env ''alice'' ''x'' (world demo_hass) = (Inl (TileError ''timeout''), 0)
   \<and> is_TileError (TileError ''timeout'') \<and> \<not> is_InvalidAuthError (TileError ''timeout'')
   \<and> (\<exists>h'. async_setup_entry demo_env ''tile'' [] demo_hass (alice\<lparr>conf_password := ''x''\<rparr>)
              = Some (Inl (ConfigEntryNotReady ''Error during integration setup''), h'))"
proof -
  have 1: "tile_data demo_hass = Some \<lparr>data_coordinator = Map.empty, data_tile = Map.empty\<rparr>"
    by (simp add: demo_hass_def)
  have 2: "login demo_env ''alice'' ''wrong'' (world demo_hass) = (Inl (InvalidAuthError ''denied''), 0)"
    by (simp add: demo_env_def demo_hass_def)
  have 3: "login demo_env ''alice'' ''x'' (world demo_hass) = (Inl (TileError ''timeout''), 0)"
    by (simp add: demo_env_def demo_hass_def)
  show ?thesis
    using 1 2 3
      setup_entry_failure_modes[OF 1, of demo_env "alice\<lparr>conf_password := ''wrong''\<rparr>"
        "InvalidAuthError ''denied''" 0 "''tile''" "[]"]
      setup_entry_failure_modes[OF 1, of demo_env "alice\<lparr>conf_password := ''x''\<rparr>"
        "TileError ''timeout''" 0 "''tile''" "[]"]
    by (simp add: alice_def) blast
qed

theorem unload_entry_effect_witness:
  "unload_platforms demo_env alice PLATFORMS (world loaded_hass) = (True, 0)
   \<and> coordinators_of (entry_id alice) loaded_hass \<noteq> None
   \<and> fst (async_unload_entry demo_env ''tile'' loaded_hass alice) = Inr True
   \<and> coordinators_of ''e1'' (snd (async_unload_entry demo_env ''tile'' loaded_hass alice)) = None
   \<and> tiles_of ''e1'' (snd (async_unload_entry demo_env ''tile'' loaded_hass alice))
       = Some [(''t1'', \<lparr>tile_uuid = ''t1'', tile_name = ''Keys''\<rparr>)]
   \<and> unload_platforms (demo_env\<lparr>unload_platforms := \<lambda>e ps w. (False, w)\<rparr>) alice PLATFORMS
        (world loaded_hass) = (False, 0)
   \<and> fst (async_unload_entry (demo_env\<lparr>unload_platforms := \<lambda>e ps w. (False, w)\<rparr>) ''tile''
            loaded_hass alice) = Inr False
   \<and> coordinators_of ''e1''
        (snd (async_unload_entry (demo_env\<lparr>unload_platforms := \<lambda>e ps w. (False, w)\<rparr>) ''tile''
                loaded_hass alice))
       = coordinators_of ''e1'' loaded_hass"
proof -
  let ?env' = "demo_env\<lparr>unload_platforms := \<lambda>e ps w. (False, w)\<rparr>"
  have 1: "unload_platforms demo_env alice PLATFORMS (world loaded_hass) = (True, 0)"
    by (simp add: demo_env_def loaded_hass_def)
  have 2: "coordinators_of (entry_id alice) loaded_hass \<noteq> None"
    by (simp add: coordinators_of_def loaded_hass_def alice_def)
  have 3: "unload_platforms ?env' alice PLATFORMS (world loaded_hass) = (False, 0)"
    by (simp add: loaded_hass_def)
  have 4: "tiles_of ''e1'' loaded_hass = Some [(''t1'', \<lparr>tile_uuid = ''t1'', tile_name = ''Keys''\<rparr>)]"
    by (simp add: tiles_of_def loaded_hass_def)
  have 5: "entry_id alice = ''e1''" by (simp add: alice_def)
  show ?thesis
    using 1 2 3 4 unload_entry_effect[OF 1, of "''tile''"] unload_entry_effect[OF 3, of "''tile''"]
    unfolding 5 by simp
qed

lemma in_flight_simps [simp]:
  "in_flight [] = 0"
  "in_flight (e # tr) = flight_delta e + in_flight tr"
  "in_flight (tr @ tr') = in_flight tr + in_flight tr'"
  by (simp_all add: in_flight_def)

lemma in_flight_update_events: "\<forall>e \<in> set tr. is_update_event e \<Longrightarrow> in_flight tr = 0"
proof (induction tr)
  case Nil
  show ?case by simp
next
  case (Cons e tr)
  then have "is_update_event e" by simp
  then have "flight_delta e = 0" by (cases e) simp_all
  with Cons show ?case by simp
qed

lemma in_flight_other_phase: "\<forall>e \<in> set tr. phase e \<noteq> 4 \<Longrightarrow> in_flight tr = 0"
proof (induction tr)
  case Nil
  show ?case by simp
next
  case (Cons e tr)
  then have "phase e \<noteq> 4" by simp
  then have "flight_delta e = 0" by (cases e) simp_all
  with Cons show ?case by simp
qed

lemma prefix_update_events:
  "\<forall>e \<in> set tr. is_update_event e \<Longrightarrow> prefix p tr \<Longrightarrow> in_flight p = 0"
  by (rule in_flight_update_events) (auto dest: set_mono_prefix)

lemma pool_run_bound:
  "pool_run limit queue running tr \<Longrightarrow> length running \<le> limit \<Longrightarrow> prefix p tr \<Longrightarrow>
   0 \<le> int (length running) + in_flight p \<and> int (length running) + in_flight p \<le> int limit"
proof (induction arbitrary: p rule: pool_run.induct)
  case (drained limit)
  then show ?case by simp
next
  case (admit running limit queue u tr)
  show ?case
  proof (cases p)
    case Nil
    then show ?thesis using admit.prems by simp
  next
    case (Cons e p')
    then have e: "e = EvRefreshStart u" and p': "prefix p' tr" using admit.prems by simp_all
    have "length (running @ [u]) \<le> limit" using admit.hyps by simp
    from admit.IH[OF this p'] show ?thesis using Cons e by simp
  qed
next
  case (complete i running upd limit queue tr)
  from complete.prems(2) consider
      (inside) "prefix p upd"
    | (beyond) us where "p = upd @ us" "prefix us (EvRefreshSettle (running ! i) # tr)"
    by (auto simp: prefix_append)
  then show ?case
  proof cases
    case inside
    then have "in_flight p = 0" using complete.hyps(2) by (simp add: prefix_update_events)
    then show ?thesis using complete.prems(1) by simp
  next
    case beyond
    have upd0: "in_flight upd = 0" using complete.hyps(2) by (rule in_flight_update_events)
    show ?thesis
    proof (cases us)
      case Nil
      then show ?thesis using beyond upd0 complete.prems(1) by simp
    next
      case (Cons e us')
      then have e: "e = EvRefreshSettle (running ! i)" and us': "prefix us' tr"
        using beyond(2) by simp_all
      have len: "length (take i running @ drop (Suc i) running) = length running - 1"
        using complete.hyps(1) by simp
      then have "length (take i running @ drop (Suc i) running) \<le> limit"
        using complete.prems(1) by simp
      from complete.IH[OF this us'] show ?thesis
        using beyond(1) Cons e upd0 len complete.hyps(1) by simp
    qed
  qed
qed


lemma set_coordinator_frame:
  "trace (set_coordinator entry u r h) = trace h"
  "world (set_coordinator entry u r h) = world h"
  "registry (set_coordinator entry u r h) = registry h"
  "coordinators (set_coordinator entry u r h) = coordinators h"
  "tiles_of eid (set_coordinator entry u r h) = tiles_of eid h"
  by (simp_all add: set_coordinator_def tiles_of_def split: option.splits)

lemma coordinators_of_set_coordinator:
  "coordinators_of (entry_id entry) h = Some cm \<Longrightarrow>
   coordinators_of (entry_id entry) (set_coordinator entry u r h) = Some (cm(u \<mapsto> r))"
  by (auto simp: set_coordinator_def coordinators_of_def split: option.splits)

lemma log_event_frame:
  "tiles_of eid (log_event ev h) = tiles_of eid h"
  "coordinators_of eid (log_event ev h) = coordinators_of eid h"
  "registry (log_event ev h) = registry h"
  "coordinators (log_event ev h) = coordinators h"
  "world (log_event ev h) = world h"
  "trace (log_event ev h) = trace h @ [ev]"
  by (simp_all add: log_event_def tiles_of_def coordinators_of_def)

lemma async_update_tile_frame:
  "tile_data (snd (async_update_tile env cl t h)) = tile_data h"
  "registry (snd (async_update_tile env cl t h)) = registry h"
  "coordinators (snd (async_update_tile env cl t h)) = coordinators h"
  by (simp_all add: async_update_tile_def log_event_def Let_def split: prod.splits sum.splits)

lemma trace_async_update_tile:
  "\<exists>upd. trace (snd (async_update_tile env cl t h)) = trace h @ upd
         \<and> (\<forall>e \<in> set upd. is_update_event e)"
  by (simp add: async_update_tile_def log_event_def Let_def split: prod.splits sum.splits)

lemma trace_async_refresh:
  "\<exists>upd. trace (async_refresh env cl tk h) = trace h @ upd @ [EvRefreshSettle (fst tk)]
         \<and> (\<forall>e \<in> set upd. is_update_event e)"
proof (cases "snd tk < length (coordinators h)")
  case False
  then have "trace (async_refresh env cl tk h) = trace h @ [] @ [EvRefreshSettle (fst tk)]"
    by (simp add: async_refresh_def log_event_def)
  then show ?thesis by (intro exI[of _ "[]"]) simp
next
  case True
  let ?t = "update_tile (coordinators h ! snd tk)"
  obtain r h1 where eq: "async_update_tile env cl ?t h = (r, h1)"
    by (cases "async_update_tile env cl ?t h")
  obtain upd where "trace h1 = trace h @ upd" and "\<forall>e \<in> set upd. is_update_event e"
    using trace_async_update_tile[of env cl ?t h] eq by auto
  then show ?thesis
    using True by (simp add: async_refresh_def eq log_event_def Let_def)
qed

lemma async_refresh_frame:
  "tile_data (async_refresh env cl tk h) = tile_data h"
  "registry (async_refresh env cl tk h) = registry h"
  "map coordinator_config (coordinators (async_refresh env cl tk h))
     = map coordinator_config (coordinators h)"
proof -
  let ?t = "update_tile (coordinators h ! snd tk)"
  obtain r h1 where eq: "async_update_tile env cl ?t h = (r, h1)"
    by (cases "async_update_tile env cl ?t h")
  have a: "tile_data h1 = tile_data h" "registry h1 = registry h" "coordinators h1 = coordinators h"
    using async_update_tile_frame[of env cl ?t h] eq by simp_all
  show "tile_data (async_refresh env cl tk h) = tile_data h"
    using a by (simp add: async_refresh_def eq log_event_def Let_def)
  show "registry (async_refresh env cl tk h) = registry h"
    using a by (simp add: async_refresh_def eq log_event_def Let_def)
  show "map coordinator_config (coordinators (async_refresh env cl tk h))
          = map coordinator_config (coordinators h)"
  proof (cases "snd tk < length (coordinators h)")
    case False
    then show ?thesis by (simp add: async_refresh_def log_event_def)
  next
    case True
    define c where "c = coordinators h ! snd tk"
    define c' where "c' = (case r of
                     Inr v \<Rightarrow> c\<lparr>last_update_success := True, coord_data := v\<rparr>
                   | Inl e \<Rightarrow> c\<lparr>last_update_success := False\<rparr>)"
    have cfg: "coordinator_config c' = coordinator_config c"
      by (simp add: c'_def coordinator_config_def split: sum.splits)
    have res: "coordinators (async_refresh env cl tk h) = (coordinators h)[snd tk := c']"
      unfolding c'_def c_def using True a by (simp add: async_refresh_def eq log_event_def Let_def)
    have "map coordinator_config ((coordinators h)[snd tk := c'])
            = (map coordinator_config (coordinators h))[snd tk := coordinator_config c']"
      by (rule map_update)
    also have "\<dots> = map coordinator_config (coordinators h)"
      unfolding cfg c_def using True by (simp add: list_update_same_conv)
    finally show ?thesis unfolding res .
  qed
qed

lemma gather_loop_drained: "gather_loop env cl limit sched [] [] h = Some h"
  by (subst gather_loop.simps) simp

lemma gather_loop_admit:
  assumes "queue \<noteq> [] \<and> length running < limit \<and> (running = [] \<or> wants_admit sched)"
  shows "gather_loop env cl limit sched queue running h =
           gather_loop env cl limit (tl sched) (tl queue) (running @ [hd queue])
             (log_event (EvRefreshStart (fst (hd queue))) h)"
  using assms by (subst gather_loop.simps) auto

lemma gather_loop_complete:
  assumes "\<not> (queue \<noteq> [] \<and> length running < limit \<and> (running = [] \<or> wants_admit sched))"
    and "running \<noteq> []"
  shows "gather_loop env cl limit sched queue running h =
           gather_loop env cl limit (tl sched) queue
             (take (pick sched (length running)) running
                @ drop (Suc (pick sched (length running))) running)
             (async_refresh env cl (running ! pick sched (length running)) h)"
  using assms by (subst gather_loop.simps) auto

lemma gather_loop_stuck:
  assumes "\<not> (queue = [] \<and> running = [])"
    and "\<not> (queue \<noteq> [] \<and> length running < limit \<and> (running = [] \<or> wants_admit sched))"
    and "running = []"
  shows "gather_loop env cl limit sched queue running h = None"
  using assms by (subst gather_loop.simps) auto

lemma gather_loop_returns:
  "0 < limit \<Longrightarrow> \<exists>h'. gather_loop env cl limit sched queue running h = Some h'"
proof (induction env cl limit sched queue running h rule: gather_loop.induct)
  case (1 env cl limit sched queue running h)
  show ?case
  proof (cases "queue = [] \<and> running = []")
    case True
    then show ?thesis by (simp add: gather_loop_drained)
  next
    case nd: False
    show ?thesis
    proof (cases "queue \<noteq> [] \<and> length running < limit \<and> (running = [] \<or> wants_admit sched)")
      case True
      show ?thesis
        using "1.IH"(1)[OF nd True "1.prems"] by (simp add: gather_loop_admit[OF True])
    next
      case na: False
      have ne: "running \<noteq> []" using nd na "1.prems" by auto
      show ?thesis
        using "1.IH"(2)[OF nd na ne "1.prems"] by (simp add: gather_loop_complete[OF na ne])
    qed
  qed
qed

lemma gather_loop_pool_run:
  "gather_loop env cl limit sched queue running h = Some h' \<Longrightarrow>
   \<exists>tr. trace h' = trace h @ tr \<and> pool_run limit (map fst queue) (map fst running) tr"
proof (induction env cl limit sched queue running h rule: gather_loop.induct)
  case (1 env cl limit sched queue running h)
  show ?case
  proof (cases "queue = [] \<and> running = []")
    case True
    then have "h' = h" using "1.prems" by (simp add: gather_loop_drained)
    then show ?thesis using True by (auto intro: pool_run.drained)
  next
    case nd: False
    show ?thesis
    proof (cases "queue \<noteq> [] \<and> length running < limit \<and> (running = [] \<or> wants_admit sched)")
      case True
      let ?h1 = "log_event (EvRefreshStart (fst (hd queue))) h"
      have "gather_loop env cl limit (tl sched) (tl queue) (running @ [hd queue]) ?h1 = Some h'"
        using "1.prems" by (simp add: gather_loop_admit[OF True])
      from "1.IH"(1)[OF nd True this] obtain tr where
        tr: "trace h' = trace ?h1 @ tr"
        and run: "pool_run limit (map fst (tl queue)) (map fst (running @ [hd queue])) tr"
        by blast
      have q: "map fst queue = fst (hd queue) # map fst (tl queue)"
        using True by (cases queue) simp_all
      have "pool_run limit (map fst queue) (map fst running) (EvRefreshStart (fst (hd queue)) # tr)"
        unfolding q using True run by (intro pool_run.admit) simp_all
      moreover have "trace h' = trace h @ EvRefreshStart (fst (hd queue)) # tr"
        using tr by (simp add: log_event_def)
      ultimately show ?thesis by blast
    next
      case na: False
      have ne: "running \<noteq> []"
      proof
        assume "running = []"
        from gather_loop_stuck[OF nd na this]
        have "gather_loop env cl limit sched queue running h = None" .
        with "1.prems" show False by simp
      qed
      let ?i = "pick sched (length running)"
      let ?h1 = "async_refresh env cl (running ! ?i) h"
      have i: "?i < length running"
        using ne by (cases "(sched, length running)" rule: pick.cases) simp_all
      have "gather_loop env cl limit (tl sched) queue
              (take ?i running @ drop (Suc ?i) running) ?h1 = Some h'"
        using "1.prems" by (simp add: gather_loop_complete[OF na ne])
      from "1.IH"(2)[OF nd na ne this] obtain tr where
        tr: "trace h' = trace ?h1 @ tr"
        and run: "pool_run limit (map fst queue)
                    (map fst (take ?i running @ drop (Suc ?i) running)) tr"
        by blast
      obtain upd where upd: "trace ?h1 = trace h @ upd @ [EvRefreshSettle (fst (running ! ?i))]"
        and ue: "\<forall>e \<in> set upd. is_update_event e"
        using trace_async_refresh by blast
      have run': "pool_run limit (map fst queue)
                    (take ?i (map fst running) @ drop (Suc ?i) (map fst running)) tr"
        using run by (simp add: take_map drop_map)
      have "pool_run limit (map fst queue) (map fst running)
              (upd @ EvRefreshSettle (map fst running ! ?i) # tr)"
        using i ue run' by (intro pool_run.complete) simp_all
      moreover have "trace h' = trace h @ upd @ EvRefreshSettle (map fst running ! ?i) # tr"
        using tr upd i by simp
      ultimately show ?thesis by blast
    qed
  qed
qed

lemma gather_loop_frame:
  "gather_loop env cl limit sched queue running h = Some h' \<Longrightarrow>
   tile_data h' = tile_data h \<and> registry h' = registry h
   \<and> map coordinator_config (coordinators h') = map coordinator_config (coordinators h)"
proof (induction env cl limit sched queue running h rule: gather_loop.induct)
  case (1 env cl limit sched queue running h)
  show ?case
  proof (cases "queue = [] \<and> running = []")
    case True
    then show ?thesis using "1.prems" by (simp add: gather_loop_drained)
  next
    case nd: False
    show ?thesis
    proof (cases "queue \<noteq> [] \<and> length running < limit \<and> (running = [] \<or> wants_admit sched)")
      case True
      have "gather_loop env cl limit (tl sched) (tl queue) (running @ [hd queue])
              (log_event (EvRefreshStart (fst (hd queue))) h) = Some h'"
        using "1.prems" by (simp add: gather_loop_admit[OF True])
      from "1.IH"(1)[OF nd True this] show ?thesis
        by (simp add: log_event_def)
    next
      case na: False
      have ne: "running \<noteq> []"
      proof
        assume "running = []"
        from gather_loop_stuck[OF nd na this]
        have "gather_loop env cl limit sched queue running h = None" .
        with "1.prems" show False by simp
      qed
      have "gather_loop env cl limit (tl sched) queue
              (take (pick sched (length running)) running
                 @ drop (Suc (pick sched (length running))) running)
              (async_refresh env cl (running ! pick sched (length running)) h) = Some h'"
        using "1.prems" by (simp add: gather_loop_complete[OF na ne])
      from "1.IH"(2)[OF nd na ne this] show ?thesis
        by (simp add: async_refresh_frame)
    qed
  qed
qed

lemma create_coordinators_tasks:
  "map fst (fst (create_coordinators entry tiles tasks h)) = map fst tasks @ map fst tiles"
  by (induction tiles arbitrary: tasks h) (auto simp: Let_def new_coordinator_def)

lemma create_coordinators_frame:
  "trace (snd (create_coordinators entry tiles tasks h)) = trace h @ map (\<lambda>(u, t). EvCreateCoordinator u) tiles
   \<and> tiles_of eid (snd (create_coordinators entry tiles tasks h)) = tiles_of eid h
   \<and> registry (snd (create_coordinators entry tiles tasks h)) = registry h
   \<and> coordinators (snd (create_coordinators entry tiles tasks h))
       = coordinators h @ map (\<lambda>(u, t). coordinator_for t) tiles"
proof (induction tiles arbitrary: tasks h)
  case Nil
  show ?case by simp
next
  case (Cons p tiles)
  obtain u t where p: "p = (u, t)" by (cases p)
  let ?c = "DataUpdateCoordinator (tile_name t) DEFAULT_UPDATE_INTERVAL t"
  let ?h1 = "log_event (EvCreateCoordinator u)
               (set_coordinator entry u (length (coordinators h))
                  (h\<lparr>coordinators := coordinators h @ [?c]\<rparr>))"
  have step: "create_coordinators entry (p # tiles) tasks h =
                create_coordinators entry tiles (tasks @ [(u, length (coordinators h))]) ?h1"
    by (simp add: p Let_def new_coordinator_def)
  have t0: "tiles_of eid (h\<lparr>coordinators := coordinators h @ [?c]\<rparr>) = tiles_of eid h"
    by (simp add: tiles_of_def)
  have h1: "trace ?h1 = trace h @ [EvCreateCoordinator u]"
    "tiles_of eid ?h1 = tiles_of eid h" "registry ?h1 = registry h"
    "coordinators ?h1 = coordinators h @ [coordinator_for t]"
    by (simp_all add: log_event_frame set_coordinator_frame t0 coordinator_for_def)
  show ?case
    unfolding step using Cons.IH[of "tasks @ [(u, length (coordinators h))]" ?h1]
    by (simp add: h1 p)
qed

lemma create_coordinators_map:
  "coordinators_of (entry_id entry) h = Some cm \<Longrightarrow>
   \<exists>cm'. coordinators_of (entry_id entry) (snd (create_coordinators entry tiles tasks h)) = Some cm'
        \<and> dom cm' = dom cm \<union> fst ` set tiles
        \<and> (\<forall>u. u \<notin> fst ` set tiles \<longrightarrow> cm' u = cm u)
        \<and> (distinct (map fst tiles) \<longrightarrow>
              (\<forall>i < length tiles. cm' (fst (tiles ! i)) = Some (length (coordinators h) + i)))"
proof (induction tiles arbitrary: tasks h cm)
  case Nil
  then show ?case by simp
next
  case (Cons p tiles)
  obtain u t where p: "p = (u, t)" by (cases p)
  let ?c = "DataUpdateCoordinator (tile_name t) DEFAULT_UPDATE_INTERVAL t"
  let ?n = "length (coordinators h)"
  let ?h1 = "log_event (EvCreateCoordinator u)
               (set_coordinator entry u ?n (h\<lparr>coordinators := coordinators h @ [?c]\<rparr>))"
  have step: "create_coordinators entry (p # tiles) tasks h =
                create_coordinators entry tiles (tasks @ [(u, ?n)]) ?h1"
    by (simp add: p Let_def new_coordinator_def)
  have "coordinators_of (entry_id entry) (h\<lparr>coordinators := coordinators h @ [?c]\<rparr>) = Some cm"
    using Cons.prems by (simp add: coordinators_of_def)
  then have c1: "coordinators_of (entry_id entry) ?h1 = Some (cm(u \<mapsto> ?n))"
    by (simp add: log_event_frame coordinators_of_set_coordinator)
  have n1: "length (coordinators ?h1) = Suc ?n"
    by (simp add: log_event_frame set_coordinator_frame)
  from Cons.IH[OF c1, of "tasks @ [(u, ?n)]"] obtain cm' where
    a: "coordinators_of (entry_id entry)
          (snd (create_coordinators entry tiles (tasks @ [(u, ?n)]) ?h1)) = Some cm'"
    and b: "dom cm' = dom (cm(u \<mapsto> ?n)) \<union> fst ` set tiles"
    and c: "\<forall>v. v \<notin> fst ` set tiles \<longrightarrow> cm' v = (cm(u \<mapsto> ?n)) v"
    and d: "distinct (map fst tiles) \<longrightarrow>
              (\<forall>i < length tiles. cm' (fst (tiles ! i)) = Some (Suc ?n + i))"
    unfolding n1 by blast
  have 1: "dom cm' = dom cm \<union> fst ` set (p # tiles)" using b by (auto simp: p)
  have 2: "\<forall>v. v \<notin> fst ` set (p # tiles) \<longrightarrow> cm' v = cm v" using c by (auto simp: p)
  have 3: "distinct (map fst (p # tiles)) \<longrightarrow>
             (\<forall>i < length (p # tiles). cm' (fst ((p # tiles) ! i)) = Some (?n + i))"
  proof (intro impI allI)
    fix i assume dist: "distinct (map fst (p # tiles))" and i: "i < length (p # tiles)"
    from dist have "u \<notin> fst ` set tiles" by (simp add: p)
    then have first: "cm' u = Some ?n" using c by simp
    show "cm' (fst ((p # tiles) ! i)) = Some (?n + i)"
    proof (cases i)
      case 0
      then show ?thesis using first by (simp add: p)
    next
      case (Suc j)
      then have "j < length tiles" using i by simp
      then show ?thesis using d dist Suc by simp
    qed
  qed
  show ?case unfolding step using a 1 2 3 by blast
qed

lemma sorted_const: "\<forall>x \<in> set xs. x = (c::nat) \<Longrightarrow> sorted xs"
  by (induction xs) auto

lemma tile_data_setup_start:
  "tile_data (setup_start domain entry d h) =
     Some (d\<lparr>data_coordinator := (data_coordinator d)(entry_id entry \<mapsto> Map.empty),
             data_tile := (data_tile d)(entry_id entry \<mapsto> [])\<rparr>)"
  by (simp add: setup_start_def migrate_entities_frame)

lemma coordinators_migrate_loop:
  "coordinators (migrate_loop domain entry es h) = coordinators h"
  by (induction es arbitrary: h) (simp_all add: log_event_def)

lemma registry_setup_start:
  "registry (setup_start domain entry d h) = registry (migrate_entities domain entry h)"
  by (simp add: setup_start_def migrate_entities_def registry_migrate_loop)

lemma coordinators_setup_start:
  "coordinators (setup_start domain entry d h) = coordinators h"
  by (simp add: setup_start_def migrate_entities_def coordinators_migrate_loop)

lemma setup_discovered_facts:
  "trace (setup_discovered domain entry d w2 tiles h) =
     trace h @ map (\<lambda>e. EvUpdateEntity (entity_id e) (new_unique_id domain entry e))
                 (filter (needs_migration entry) (registry h))
       @ [EvLogin (conf_username entry), EvGetTiles]"
  "coordinators_of (entry_id entry) (setup_discovered domain entry d w2 tiles h) = Some Map.empty"
  "tiles_of (entry_id entry) (setup_discovered domain entry d w2 tiles h) = Some tiles"
  "registry (setup_discovered domain entry d w2 tiles h) = registry (migrate_entities domain entry h)"
  "coordinators (setup_discovered domain entry d w2 tiles h) = coordinators h"
  by (simp_all add: setup_discovered_def Let_def log_event_def setup_start_frame(4)
      tile_data_setup_start coordinators_of_def tiles_of_def registry_setup_start
      coordinators_setup_start)

lemma setup_entry_discovered:
  assumes "tile_data h = Some d"
    and "login env (conf_username entry) (conf_password entry) (world h) = (Inr cl, w1)"
    and "get_tiles env cl w1 = (Inr tiles, w2)"
  shows "async_setup_entry env domain sched h entry =
           (case gather_with_concurrency env cl DEFAULT_INIT_TASK_LIMIT sched
                   (fst (create_coordinators entry tiles [] (setup_discovered domain entry d w2 tiles h)))
                   (snd (create_coordinators entry tiles [] (setup_discovered domain entry d w2 tiles h))) of
              None \<Rightarrow> None
            | Some h6 \<Rightarrow> Some (Inr True, log_event (EvSetupPlatforms PLATFORMS) h6))"
  using assms
  by (simp add: async_setup_entry_def login_and_discover_def Let_def setup_start_frame(1)
      setup_start_def[symmetric] setup_discovered_def log_event_def split: prod.splits)

lemma phase_migration_events: "\<forall>e \<in> set (migration_events domain entry h). phase e = 0"
  by (auto simp: migration_events_def)

lemma sorted_migration_events: "sorted (map phase (migration_events domain entry h))"
  by (rule sorted_const[of _ 0]) (auto simp: migration_events_def)

lemma setup_entry_trace:
  "\<exists>r h' pre q pool post.
      async_setup_entry env domain sched h entry = Some (r, h')
    \<and> trace h' = trace h @ pre @ pool @ post
    \<and> sorted (map phase pre) \<and> (\<forall>e \<in> set pre. phase e < 4)
    \<and> pool_run DEFAULT_INIT_TASK_LIMIT q [] pool
    \<and> (\<forall>e \<in> set post. phase e = 5)
    \<and> (tile_data h \<noteq> None \<longrightarrow>
          registry h' = registry (migrate_entities domain entry h)
        \<and> (\<exists>rest. pre = migration_events domain entry h @ EvLogin (conf_username entry) # rest))
    \<and> (r = Inr True \<longrightarrow>
          post = [EvSetupPlatforms PLATFORMS]
        \<and> EvLogin (conf_username entry) \<in> set pre \<and> EvGetTiles \<in> set pre
        \<and> (\<exists>tiles. tiles_of (entry_id entry) h' = Some tiles \<and> q = map fst tiles
              \<and> (\<forall>u \<in> set q. EvCreateCoordinator u \<in> set pre)))"
proof (cases "tile_data h")
  case None
  then have "async_setup_entry env domain sched h entry = Some (Inl (KeyError domain), h)"
    by (simp add: async_setup_entry_def)
  then show ?thesis
    using None
    by (intro exI[of _ "Inl (KeyError domain)"] exI[of _ h] exI[of _ "[]"])
       (auto intro: pool_run.drained)
next
  case (Some d)
  let ?mig = "migration_events domain entry h"
  obtain r1 w1 where lg: "login env (conf_username entry) (conf_password entry) (world h) = (r1, w1)"
    by (cases "login env (conf_username entry) (conf_password entry) (world h)")
  show ?thesis
  proof (cases r1)
    case (Inl err)
    let ?h' = "log_event (EvLogin (conf_username entry)) ((setup_start domain entry d h)\<lparr>world := w1\<rparr>)"
    have res: "async_setup_entry env domain sched h entry = Some (setup_failure err, ?h')"
      using setup_entry_login_failed[OF Some] lg Inl by simp
    have tr: "trace ?h' = trace h @ (?mig @ [EvLogin (conf_username entry)]) @ [] @ []"
      by (simp add: log_event_def setup_start_frame(4) migration_events_def)
    have srt: "sorted (map phase (?mig @ [EvLogin (conf_username entry)]))"
      using sorted_migration_events[of domain entry h] phase_migration_events[of domain entry h]
      by (simp add: sorted_append)
    have lt: "\<forall>e \<in> set (?mig @ [EvLogin (conf_username entry)]). phase e < 4"
      using phase_migration_events[of domain entry h] by auto
    have nt: "setup_failure err \<noteq> Inr True" by (simp add: setup_failure_def)
    have rg: "registry ?h' = registry (migrate_entities domain entry h)"
      by (simp add: log_event_frame registry_setup_start)
    show ?thesis
      using res tr srt lt nt rg pool_run.drained[of DEFAULT_INIT_TASK_LIMIT]
      by (intro exI[of _ "setup_failure err"] exI[of _ ?h']
          exI[of _ "?mig @ [EvLogin (conf_username entry)]"] exI[of _ "[]"]) simp
  next
    case (Inr cl)
    obtain r2 w2 where gt: "get_tiles env cl w1 = (r2, w2)" by (cases "get_tiles env cl w1")
    let ?pre0 = "?mig @ [EvLogin (conf_username entry), EvGetTiles]"
    have srt0: "sorted (map phase ?pre0)"
      using sorted_migration_events[of domain entry h] phase_migration_events[of domain entry h]
      by (simp add: sorted_append)
    have lt0: "\<forall>e \<in> set ?pre0. phase e < 4"
      using phase_migration_events[of domain entry h] by auto
    show ?thesis
    proof (cases r2)
      case (Inl err)
      let ?h' = "log_event EvGetTiles
                   ((log_event (EvLogin (conf_username entry))
                       ((setup_start domain entry d h)\<lparr>world := w1\<rparr>))\<lparr>world := w2\<rparr>)"
      have res: "async_setup_entry env domain sched h entry = Some (setup_failure err, ?h')"
        using setup_entry_discovery_failed[OF Some] lg gt Inl \<open>r1 = Inr cl\<close> by simp
      have tr: "trace ?h' = trace h @ ?pre0 @ [] @ []"
        by (simp add: log_event_def setup_start_frame(4) migration_events_def)
      have nt: "setup_failure err \<noteq> Inr True" by (simp add: setup_failure_def)
      have rg: "registry ?h' = registry (migrate_entities domain entry h)"
        by (simp add: log_event_frame registry_setup_start)
      show ?thesis
        using res tr srt0 lt0 nt rg pool_run.drained[of DEFAULT_INIT_TASK_LIMIT]
        by (intro exI[of _ "setup_failure err"] exI[of _ ?h'] exI[of _ ?pre0] exI[of _ "[]"]) simp
    next
      case (Inr tiles)
      let ?h4 = "setup_discovered domain entry d w2 tiles h"
      let ?tasks = "fst (create_coordinators entry tiles [] ?h4)"
      let ?h5 = "snd (create_coordinators entry tiles [] ?h4)"
      let ?creates = "map (\<lambda>(u, t). EvCreateCoordinator u) tiles"
      have eq: "async_setup_entry env domain sched h entry =
           (case gather_with_concurrency env cl DEFAULT_INIT_TASK_LIMIT sched ?tasks ?h5 of
              None \<Rightarrow> None
            | Some h6 \<Rightarrow> Some (Inr True, log_event (EvSetupPlatforms PLATFORMS) h6))"
        using setup_entry_discovered[OF Some] lg gt Inr \<open>r1 = Inr cl\<close> by simp
      have "0 < DEFAULT_INIT_TASK_LIMIT" by (simp add: DEFAULT_INIT_TASK_LIMIT_def)
      from gather_loop_returns[OF this, of env cl sched ?tasks "[]" ?h5]
      obtain h6 where g: "gather_loop env cl DEFAULT_INIT_TASK_LIMIT sched ?tasks [] ?h5 = Some h6"
        by blast
      let ?h' = "log_event (EvSetupPlatforms PLATFORMS) h6"
      have res: "async_setup_entry env domain sched h entry = Some (Inr True, ?h')"
        using eq g by (simp add: gather_with_concurrency_def)
      from gather_loop_pool_run[OF g] obtain pool where
        p1: "trace h6 = trace ?h5 @ pool"
        and p2: "pool_run DEFAULT_INIT_TASK_LIMIT (map fst ?tasks) [] pool"
        by auto
      have tasks: "map fst ?tasks = map fst tiles"
        by (simp add: create_coordinators_tasks)
      have t5: "trace ?h5 = trace h @ ?pre0 @ ?creates"
        using create_coordinators_frame[of entry tiles "[]" ?h4]
        by (simp add: setup_discovered_facts(1) migration_events_def)
      have tr: "trace ?h' = trace h @ (?pre0 @ ?creates) @ pool @ [EvSetupPlatforms PLATFORMS]"
        by (simp add: log_event_frame p1 t5)
      have cr: "\<forall>x \<in> set (map phase ?creates). x = 3" by auto
      have srt: "sorted (map phase (?pre0 @ ?creates))"
        using srt0 lt0 sorted_const[OF cr] phase_migration_events[of domain entry h]
        by (auto simp: sorted_append)
      have lt: "\<forall>e \<in> set (?pre0 @ ?creates). phase e < 4"
        using lt0 by auto
      have "tiles_of (entry_id entry) h6 = tiles_of (entry_id entry) ?h5"
        using gather_loop_frame[OF g] by (simp add: tiles_of_def)
      then have tl: "tiles_of (entry_id entry) ?h' = Some tiles"
        using create_coordinators_frame[of entry tiles "[]" ?h4 "entry_id entry"]
        by (simp add: log_event_frame setup_discovered_facts(3))
      have rg: "registry ?h' = registry (migrate_entities domain entry h)"
        using gather_loop_frame[OF g]
          create_coordinators_frame[of entry tiles "[]" ?h4 "entry_id entry"]
        by (simp add: log_event_frame setup_discovered_facts(4))
      have mem: "\<forall>u \<in> set (map fst tiles). EvCreateCoordinator u \<in> set (?pre0 @ ?creates)"
        by force
      show ?thesis
        using res tr srt lt p2 tl rg mem unfolding tasks
        by (intro exI[of _ "Inr True"] exI[of _ ?h'] exI[of _ "?pre0 @ ?creates"]
            exI[of _ "map fst tiles"] exI[of _ pool] exI[of _ "[EvSetupPlatforms PLATFORMS]"])
           simp
    qed
  qed
qed

lemma setup_entry_success_inv:
  assumes "async_setup_entry env domain sched h entry = Some (Inr True, h')"
  shows "\<exists>d cl w1 tiles w2 h6.
           tile_data h = Some d
         \<and> login env (conf_username entry) (conf_password entry) (world h) = (Inr cl, w1)
         \<and> get_tiles env cl w1 = (Inr tiles, w2)
         \<and> gather_loop env cl DEFAULT_INIT_TASK_LIMIT sched
              (fst (create_coordinators entry tiles [] (setup_discovered domain entry d w2 tiles h))) []
              (snd (create_coordinators entry tiles [] (setup_discovered domain entry d w2 tiles h)))
             = Some h6
         \<and> h' = log_event (EvSetupPlatforms PLATFORMS) h6"
proof (cases "tile_data h")
  case None
  then show ?thesis using assms by (simp add: async_setup_entry_def)
next
  case (Some d)
  obtain r1 w1 where lg: "login env (conf_username entry) (conf_password entry) (world h) = (r1, w1)"
    by (cases "login env (conf_username entry) (conf_password entry) (world h)")
  show ?thesis
  proof (cases r1)
    case (Inl err)
    have "setup_failure err \<noteq> Inr True" by (simp add: setup_failure_def)
    then show ?thesis
      using setup_entry_login_failed[OF Some, of env entry err w1 domain sched] lg Inl assms by simp
  next
    case (Inr cl)
    obtain r2 w2 where gt: "get_tiles env cl w1 = (r2, w2)" by (cases "get_tiles env cl w1")
    show ?thesis
    proof (cases r2)
      case (Inl err)
      have "setup_failure err \<noteq> Inr True" by (simp add: setup_failure_def)
      then show ?thesis
        using setup_entry_discovery_failed[OF Some, of env entry cl w1 err w2 domain sched]
          lg gt Inl \<open>r1 = Inr cl\<close> assms by simp
    next
      case (Inr tiles)
      have l: "login env (conf_username entry) (conf_password entry) (world h) = (Inr cl, w1)"
        using lg \<open>r1 = Inr cl\<close> by simp
      have g: "get_tiles env cl w1 = (Inr tiles, w2)" using gt Inr by simp
      show ?thesis
        using assms Some l g unfolding setup_entry_discovered[OF Some l g]
        by (auto simp: gather_with_concurrency_def split: option.splits)
    qed
  qed
qed

lemma setup_entry_succeeds:
  assumes "tile_data h = Some d"
    and "login env (conf_username entry) (conf_password entry) (world h) = (Inr cl, w1)"
    and "get_tiles env cl w1 = (Inr tiles, w2)"
  shows "\<exists>h'. async_setup_entry env domain sched h entry = Some (Inr True, h')
            \<and> tiles_of (entry_id entry) h' = Some tiles"
proof -
  let ?h4 = "setup_discovered domain entry d w2 tiles h"
  let ?tasks = "fst (create_coordinators entry tiles [] ?h4)"
  let ?h5 = "snd (create_coordinators entry tiles [] ?h4)"
  have "0 < DEFAULT_INIT_TASK_LIMIT" by (simp add: DEFAULT_INIT_TASK_LIMIT_def)
  from gather_loop_returns[OF this, of env cl sched ?tasks "[]" ?h5]
  obtain h6 where g: "gather_loop env cl DEFAULT_INIT_TASK_LIMIT sched ?tasks [] ?h5 = Some h6"
    by blast
  have res: "async_setup_entry env domain sched h entry
               = Some (Inr True, log_event (EvSetupPlatforms PLATFORMS) h6)"
    unfolding setup_entry_discovered[OF assms] using g by (simp add: gather_with_concurrency_def)
  have "tiles_of (entry_id entry) h6 = tiles_of (entry_id entry) ?h5"
    using gather_loop_frame[OF g] by (simp add: tiles_of_def)
  then have "tiles_of (entry_id entry) (log_event (EvSetupPlatforms PLATFORMS) h6) = Some tiles"
    using create_coordinators_frame[of entry tiles "[]" ?h4 "entry_id entry"]
    by (simp add: log_event_frame setup_discovered_facts(3))
  with res show ?thesis by blast
qed

lemma demo_setup_succeeds:
  "\<exists>h'. async_setup_entry demo_env ''tile'' sched demo_hass alice = Some (Inr True, h')
       \<and> tiles_of ''e1'' h' = Some demo_tiles"
proof -
  have 1: "tile_data demo_hass = Some \<lparr>data_coordinator = Map.empty, data_tile = Map.empty\<rparr>"
    by (simp add: demo_hass_def)
  have 2: "login demo_env (conf_username alice) (conf_password alice) (world demo_hass) = (Inr 7, 0)"
    by (simp add: demo_env_def demo_hass_def alice_def)
  have 3: "get_tiles demo_env 7 0 = (Inr demo_tiles, 0)" by (simp add: demo_env_def)
  have 4: "entry_id alice = ''e1''" by (simp add: alice_def)
  show ?thesis using setup_entry_succeeds[OF 1 2 3, of "''tile''" sched] unfolding 4 .
qed

text \<open>
  Claim C4.  After a setup that returned \<^verbatim>\<open>True\<close>, with \<open>tiles\<close> the Tiles stored
  for the entry (a dictionary: its keys are distinct): these are the Tiles the discovery
  returned; the entry's coordinator mapping has exactly their UUIDs as its keys, as many
  as there are Tiles, and no two keys share a coordinator; the coordinator stored under
  a Tile's UUID has that Tile's name, an update interval of two minutes and that Tile
  bound into its update method; and one coordinator has been constructed per Tile.
\<close>

theorem one_coordinator_per_tile:
  assumes "async_setup_entry env domain sched h entry = Some (Inr True, h')"
    and "tiles_of (entry_id entry) h' = Some tiles"
    and "distinct (map fst tiles)"
  shows "(\<exists>cl w1 w2. login env (conf_username entry) (conf_password entry) (world h) = (Inr cl, w1)
            \<and> get_tiles env cl w1 = (Inr tiles, w2))
       \<and> (\<exists>cm. coordinators_of (entry_id entry) h' = Some cm
            \<and> dom cm = fst ` set tiles
            \<and> card (dom cm) = length tiles
            \<and> inj_on cm (dom cm)
            \<and> (\<forall>(u, t) \<in> set tiles.
                  \<exists>c. coordinator_at (entry_id entry) u h' = Some c
                    \<and> coord_name c = tile_name t
                    \<and> update_interval c = 2 * 60 \<and> update_tile c = t))
       \<and> length (coordinators h') = length (coordinators h) + length tiles"
proof -
  from setup_entry_success_inv[OF assms(1)] obtain d cl w1 tiles' w2 h6 where
    lg: "login env (conf_username entry) (conf_password entry) (world h) = (Inr cl, w1)"
    and gt: "get_tiles env cl w1 = (Inr tiles', w2)"
    and g: "gather_loop env cl DEFAULT_INIT_TASK_LIMIT sched
          (fst (create_coordinators entry tiles' [] (setup_discovered domain entry d w2 tiles' h))) []
          (snd (create_coordinators entry tiles' [] (setup_discovered domain entry d w2 tiles' h)))
         = Some h6"
    and h': "h' = log_event (EvSetupPlatforms PLATFORMS) h6"
    by blast
  let ?h4 = "setup_discovered domain entry d w2 tiles' h"
  let ?h5 = "snd (create_coordinators entry tiles' [] ?h4)"
  let ?n = "length (coordinators h)"
  note fr = gather_loop_frame[OF g]
  have t65: "tiles_of (entry_id entry) h6 = tiles_of (entry_id entry) ?h5"
    and c65: "coordinators_of (entry_id entry) h6 = coordinators_of (entry_id entry) ?h5"
    using fr by (simp_all add: tiles_of_def coordinators_of_def)
  have "tiles_of (entry_id entry) h' = Some tiles'"
    using t65 create_coordinators_frame[of entry tiles' "[]" ?h4 "entry_id entry"]
    by (simp add: h' log_event_frame setup_discovered_facts(3))
  then have same: "tiles' = tiles" using assms(2) by simp
  have c4: "coordinators_of (entry_id entry) ?h4 = Some Map.empty"
    by (rule setup_discovered_facts(2))
  from create_coordinators_map[OF c4, of tiles' "[]"]
  obtain cm where c5: "coordinators_of (entry_id entry) ?h5 = Some cm"
    and dom5: "dom cm = fst ` set tiles"
    and idx: "\<forall>i < length tiles. cm (fst (tiles ! i)) = Some (?n + i)"
    using assms(3) unfolding same by (auto simp: setup_discovered_facts(5))
  have cm: "coordinators_of (entry_id entry) h' = Some cm"
    using c5 c65 by (simp add: h' log_event_frame)
  have heap5: "coordinators ?h5 = coordinators h @ map (\<lambda>(u, t). coordinator_for t) tiles"
    using create_coordinators_frame[of entry tiles' "[]" ?h4 "entry_id entry"]
    unfolding same by (simp add: setup_discovered_facts(5))
  have cfg: "map coordinator_config (coordinators h6) = map coordinator_config (coordinators ?h5)"
    using fr by simp
  have len6: "length (coordinators h6) = ?n + length tiles"
    using arg_cong[OF cfg, of length] heap5 by simp
  have at: "\<exists>c. coordinator_at (entry_id entry) u h' = Some c
                    \<and> coord_name c = tile_name t
                    \<and> update_interval c = 2 * 60 \<and> update_tile c = t"
    if ut: "(u, t) \<in> set tiles" for u t
  proof -
    from ut obtain i where i: "i < length tiles" and ti: "tiles ! i = (u, t)"
      by (auto simp: in_set_conv_nth)
    have ref: "cm u = Some (?n + i)" using idx i ti by fastforce
    have bound: "?n + i < length (coordinators h6)" using i len6 by simp
    have "coordinator_config (coordinators h6 ! (?n + i))
            = coordinator_config (coordinators ?h5 ! (?n + i))"
      using cfg bound by (metis length_map nth_map)
    also have "coordinators ?h5 ! (?n + i) = coordinator_for t"
      unfolding heap5 using i ti by (simp add: nth_append)
    finally have "coordinator_config (coordinators h6 ! (?n + i)) = (tile_name t, 2 * 60, t)"
      by (simp add: coordinator_config_def coordinator_for_def DataUpdateCoordinator_def
          DEFAULT_UPDATE_INTERVAL_def)
    moreover have "coordinator_at (entry_id entry) u h' = Some (coordinators h6 ! (?n + i))"
      using cm ref bound by (simp add: coordinator_at_def h' log_event_frame)
    ultimately show ?thesis by (simp add: coordinator_config_def)
  qed
  have inj: "inj_on cm (dom cm)"
  proof (rule inj_onI)
    fix u v assume u: "u \<in> dom cm" and v: "v \<in> dom cm" and eq: "cm u = cm v"
    from u dom5 obtain i where i: "i < length tiles" "u = fst (tiles ! i)"
      by (auto simp: in_set_conv_nth)
    from v dom5 obtain j where j: "j < length tiles" "v = fst (tiles ! j)"
      by (auto simp: in_set_conv_nth)
    have "Some (?n + i) = Some (?n + j)" using idx i j eq by simp
    then show "u = v" using i j by simp
  qed
  have card: "card (dom cm) = length tiles"
    using distinct_card[OF assms(3)] dom5 by simp
  have 1: "\<exists>cl w1 w2. login env (conf_username entry) (conf_password entry) (world h) = (Inr cl, w1)
            \<and> get_tiles env cl w1 = (Inr tiles, w2)"
    using lg gt same by blast
  have 2: "\<exists>cm. coordinators_of (entry_id entry) h' = Some cm
            \<and> dom cm = fst ` set tiles
            \<and> card (dom cm) = length tiles
            \<and> inj_on cm (dom cm)
            \<and> (\<forall>(u, t) \<in> set tiles.
                  \<exists>c. coordinator_at (entry_id entry) u h' = Some c
                    \<and> coord_name c = tile_name t
                    \<and> update_interval c = 2 * 60 \<and> update_tile c = t)"
    using cm dom5 card inj at by blast
  have 3: "length (coordinators h') = length (coordinators h) + length tiles"
    using len6 by (simp add: h' log_event_frame)
  show ?thesis using 1 2 3 by blast
qed

theorem one_coordinator_per_tile_witness:
  "\<exists>h' cm c. async_setup_entry demo_env ''tile'' [] demo_hass alice = Some (Inr True, h')
     \<and> tiles_of (entry_id alice) h' = Some demo_tiles
     \<and> distinct (map fst demo_tiles)
     \<and> coordinators_of ''e1'' h' = Some cm
     \<and> dom cm = {''t1'', ''t2'', ''t3''}
     \<and> card (dom cm) = 3
     \<and> coordinator_at ''e1'' ''t2'' h' = Some c
     \<and> coord_name c = ''Wallet'' \<and> update_interval c = 120
     \<and> update_tile c = \<lparr>tile_uuid = ''t2'', tile_name = ''Wallet''\<rparr>
     \<and> length (coordinators h') = 3"
proof -
  from demo_setup_succeeds[of "[]"] obtain h' where
    1: "async_setup_entry demo_env ''tile'' [] demo_hass alice = Some (Inr True, h')"
    and t: "tiles_of ''e1'' h' = Some demo_tiles"
    by blast
  have e: "entry_id alice = ''e1''" by (simp add: alice_def)
  have 2: "tiles_of (entry_id alice) h' = Some demo_tiles" using t e by simp
  have 3: "distinct (map fst demo_tiles)" by (simp add: demo_tiles_def)
  from one_coordinator_per_tile[OF 1 2 3] obtain cm where
    c: "coordinators_of ''e1'' h' = Some cm"
    and d: "dom cm = fst ` set demo_tiles"
    and k: "card (dom cm) = length demo_tiles"
    and v: "\<forall>(u, t) \<in> set demo_tiles.
              \<exists>c. coordinator_at ''e1'' u h' = Some c \<and> coord_name c = tile_name t
                \<and> update_interval c = 2 * 60 \<and> update_tile c = t"
    and l: "length (coordinators h') = length (coordinators demo_hass) + length demo_tiles"
    unfolding e by blast
  have "(''t2'', \<lparr>tile_uuid = ''t2'', tile_name = ''Wallet''\<rparr>) \<in> set demo_tiles"
    by (simp add: demo_tiles_def)
  with v obtain c0 where "coordinator_at ''e1'' ''t2'' h' = Some c0"
    "coord_name c0 = ''Wallet''" "update_interval c0 = 120"
    "update_tile c0 = \<lparr>tile_uuid = ''t2'', tile_name = ''Wallet''\<rparr>"
    by fastforce
  moreover have "dom cm = {''t1'', ''t2'', ''t3''}" using d by (simp add: demo_tiles_def)
  moreover have "card (dom cm) = 3" using k by (simp add: demo_tiles_def)
  moreover have "length (coordinators h') = 3" using l by (simp add: demo_tiles_def demo_hass_def)
  ultimately show ?thesis using 1 2 3 c by blast
qed

text \<open>
  Claim C7.  Setup always returns or raises, and in the log of its calls the number of
  refresh tasks started and not yet settled is never above \<^verbatim>\<open>DEFAULT_INIT_TASK_LIMIT\<close>,
  which is two, whatever the Tiles and whatever order the event loop chooses.  A further
  task can only start after one in flight has settled.
\<close>

theorem initial_refresh_bounded:
  "DEFAULT_INIT_TASK_LIMIT = 2
   \<and> (\<exists>r h' tr. async_setup_entry env domain sched h entry = Some (r, h')
        \<and> trace h' = trace h @ tr
        \<and> (\<forall>p. prefix p tr \<longrightarrow> 0 \<le> in_flight p \<and> in_flight p \<le> int DEFAULT_INIT_TASK_LIMIT))"
proof -
  from setup_entry_trace[of env domain sched h entry] obtain r h' pre q pool post where
    res: "async_setup_entry env domain sched h entry = Some (r, h')"
    and tr: "trace h' = trace h @ pre @ pool @ post"
    and pre: "\<forall>e \<in> set pre. phase e < 4"
    and run: "pool_run DEFAULT_INIT_TASK_LIMIT q [] pool"
    and post: "\<forall>e \<in> set post. phase e = 5"
    by blast
  have pre0: "in_flight p = 0" if "prefix p pre" for p
  proof (rule in_flight_other_phase)
    show "\<forall>e \<in> set p. phase e \<noteq> 4" using pre set_mono_prefix[OF that] by fastforce
  qed
  have post0: "in_flight p = 0" if "prefix p post" for p
  proof (rule in_flight_other_phase)
    show "\<forall>e \<in> set p. phase e \<noteq> 4" using post set_mono_prefix[OF that] by fastforce
  qed
  have pool_b: "0 \<le> in_flight p \<and> in_flight p \<le> int DEFAULT_INIT_TASK_LIMIT" if "prefix p pool" for p
    using pool_run_bound[OF run _ that] by simp
  have "0 \<le> in_flight p \<and> in_flight p \<le> int DEFAULT_INIT_TASK_LIMIT"
    if p: "prefix p (pre @ pool @ post)" for p
  proof -
    from p consider (a) "prefix p pre"
      | (b) us where "p = pre @ us" "prefix us pool"
      | (c) vs where "p = pre @ pool @ vs" "prefix vs post"
      by (auto simp: prefix_append)
    then show ?thesis
    proof cases
      case a
      then show ?thesis using pre0 by simp
    next
      case b
      then show ?thesis using pre0[of pre] pool_b[of us] by simp
    next
      case c
      then show ?thesis using pre0[of pre] pool_b[of pool] post0[of vs] by simp
    qed
  qed
  then show ?thesis using res tr by (auto simp: DEFAULT_INIT_TASK_LIMIT_def)
qed

theorem initial_refresh_bounded_witness:
  "\<exists>r h' tr. async_setup_entry demo_env ''tile'' [Admit, Admit, Complete 1] demo_hass alice
                = Some (r, h')
     \<and> trace h' = trace demo_hass @ tr
     \<and> prefix (take 9 tr) tr
     \<and> 0 \<le> in_flight (take 9 tr) \<and> in_flight (take 9 tr) \<le> 2"
proof -
  from initial_refresh_bounded[of demo_env "''tile''" "[Admit, Admit, Complete 1]" demo_hass alice]
  obtain r h' tr where
    1: "async_setup_entry demo_env ''tile'' [Admit, Admit, Complete 1] demo_hass alice = Some (r, h')"
    and 2: "trace h' = trace demo_hass @ tr"
    and 3: "\<forall>p. prefix p tr \<longrightarrow> 0 \<le> in_flight p \<and> in_flight p \<le> int DEFAULT_INIT_TASK_LIMIT"
    and 4: "DEFAULT_INIT_TASK_LIMIT = 2"
    by blast
  have p: "prefix (take 9 tr) tr" by (rule take_is_prefix)
  from 3 p have "0 \<le> in_flight (take 9 tr) \<and> in_flight (take 9 tr) \<le> int DEFAULT_INIT_TASK_LIMIT"
    by blast
  then have "0 \<le> in_flight (take 9 tr) \<and> in_flight (take 9 tr) \<le> 2" unfolding 4 by simp
  with 1 2 p show ?thesis by blast
qed



text \<open>
  The ceiling is reached: with three tasks and the default schedule, two refreshes are
  in flight after the second start, and the third starts once the first has settled.
\<close>

lemma demo_pool_log:
  "map_option trace
     (gather_with_concurrency demo_env 7 DEFAULT_INIT_TASK_LIMIT []
        [(''t1'', 0), (''t2'', 1), (''t3'', 2)]
        (loaded_hass\<lparr>coordinators :=
           [coordinator_for \<lparr>tile_uuid = ''t1'', tile_name = ''Keys''\<rparr>,
            coordinator_for \<lparr>tile_uuid = ''t2'', tile_name = ''Wallet''\<rparr>,
            coordinator_for \<lparr>tile_uuid = ''t3'', tile_name = ''Bag''\<rparr>]\<rparr>))
   = Some [EvRefreshStart ''t1'', EvRefreshStart ''t2'', EvTileUpdate ''t1'', EvRefreshSettle ''t1'',
           EvRefreshStart ''t3'', EvTileUpdate ''t2'', EvClientInit,
           EvRefreshSettle ''t2'', EvTileUpdate ''t3'', EvRefreshSettle ''t3'']
   \<and> in_flight [EvRefreshStart ''t1'', EvRefreshStart ''t2''] = 2"
  by (simp add: gather_with_concurrency_def DEFAULT_INIT_TASK_LIMIT_def
      gather_loop_drained gather_loop_admit gather_loop_complete
      async_refresh_def async_update_tile_def log_event_def Let_def
      coordinator_for_def DataUpdateCoordinator_def demo_env_def loaded_hass_def)

end
